theory Spec2Isabelle
  imports Main "HOL-Library.AList"
begin

section \<open>Data model\<close>

text \<open>
  The job queue of \<^verbatim>\<open>server/src/queue\<close>: \<^verbatim>\<open>jobStore.js\<close> (class JobStore, and the
  Scheduler class that follows it in the same file) and \<^verbatim>\<open>queueManager.js\<close> (class
  QueueManager).

  A job is a JavaScript object. The fields \<^verbatim>\<open>startedAt\<close>, \<^verbatim>\<open>finishedAt\<close> and
  \<^verbatim>\<open>error\<close> start as \<^verbatim>\<open>null\<close>; \<^verbatim>\<open>retryAt\<close> is absent until \<^verbatim>\<open>markJobRetrying\<close>
  assigns it. Both are \<open>None\<close> here. Timestamps (\<^verbatim>\<open>Date.now()\<close>, milliseconds) and
  delays are integers; \<^verbatim>\<open>attempts\<close> starts at 0 and is only ever incremented, so it is
  a natural number. The identifier is the string drawn by \<^verbatim>\<open>uuidv4()\<close>.
\<close>

datatype job_status = PENDING | RUNNING | COMPLETED | FAILED | RETRYING | DEAD

type_synonym jid = string

record job =
  job_id :: jid
  job_type :: string
  payload :: string
  status :: job_status
  attempts :: nat
  maxAttempts :: int
  createdAt :: int
  startedAt :: "int option"
  finishedAt :: "int option"
  error :: "string option"
  retryAt :: "int option"

text \<open>
  The exceptions of the two classes: \<^verbatim>\<open>Error('Queue is at maximum capacity')\<close>,
  \<^verbatim>\<open>Error(`Job ${jobId} not found`)\<close>, \<^verbatim>\<open>Error(`Job ${jobId} is already running`)\<close>,
  and the \<^verbatim>\<open>TypeError\<close> that reading a property of \<^verbatim>\<open>null\<close> raises.
\<close>

datatype err = QueueFull | NotFound jid | AlreadyRunning jid | TypeError

text \<open>
  \<^verbatim>\<open>this.jobs\<close> is a JavaScript \<^verbatim>\<open>Map\<close>: keys are kept in insertion order, \<^verbatim>\<open>set\<close> on a
  key that is present replaces the entry in place, \<^verbatim>\<open>size\<close> counts the keys. That is an
  association list under \<^const>\<open>AList.update\<close>. \<^verbatim>\<open>this.jobsByStatus\<close> holds one
  \<^verbatim>\<open>Set\<close> of ids per status; a \<^verbatim>\<open>Set\<close> iterates in insertion order, so each one is a
  list without duplicates.
\<close>

record JobStore =
  jobs :: "(jid \<times> job) list"
  jobsByStatus :: "job_status \<Rightarrow> jid list"
  maxQueueSize :: int

text \<open>The values the code reads from \<^verbatim>\<open>process.env\<close> with \<^verbatim>\<open>parseInt\<close> at call time.\<close>

record env =
  MAX_JOB_ATTEMPTS :: int
  RETRY_BACKOFF_BASE_MS :: int

text \<open>The \<^verbatim>\<open>options\<close> argument of \<^verbatim>\<open>createJob\<close>; \<open>None\<close> is an absent property.\<close>

record options =
  opt_maxAttempts :: "int option"

section \<open>JobStore\<close>

definition set_add :: "jid \<Rightarrow> jid list \<Rightarrow> jid list" where
  "set_add x xs = (if x \<in> set xs then xs else xs @ [x])"

definition set_delete :: "jid \<Rightarrow> jid list \<Rightarrow> jid list" where
  "set_delete x xs = removeAll x xs"

definition JobStore_new :: "int \<Rightarrow> JobStore" where
  "JobStore_new maxSize =
     \<lparr>jobs = [], jobsByStatus = (\<lambda>_. []), maxQueueSize = maxSize\<rparr>"

definition getJob :: "JobStore \<Rightarrow> jid \<Rightarrow> job option" where
  "getJob s jobId = map_of (jobs s) jobId"

text \<open>
  \<^verbatim>\<open>options.maxAttempts || parseInt(process.env.MAX_JOB_ATTEMPTS || '3', 10)\<close>: an absent or
  zero option is falsy and gives the configured default.
\<close>

definition maxAttempts_of :: "env \<Rightarrow> options \<Rightarrow> int" where
  "maxAttempts_of e opts =
     (case opt_maxAttempts opts of
        None \<Rightarrow> MAX_JOB_ATTEMPTS e
      | Some m \<Rightarrow> if m = 0 then MAX_JOB_ATTEMPTS e else m)"

text \<open>
  \<^verbatim>\<open>createJob\<close>. The fresh uuid and the clock reading are arguments. A throw leaves the
  store as it is at that point, so every operation returns the store together with
  the outcome.
\<close>

definition createJob ::
  "env \<Rightarrow> JobStore \<Rightarrow> string \<Rightarrow> string \<Rightarrow> options \<Rightarrow> jid \<Rightarrow> int \<Rightarrow> JobStore \<times> (err + job)" where
  "createJob e s type pl opts uuid now =
     (if int (length (jobs s)) \<ge> maxQueueSize s then (s, Inl QueueFull)
      else
        let j = \<lparr>job_id = uuid, job_type = type, payload = pl, status = PENDING,
                 attempts = 0, maxAttempts = maxAttempts_of e opts, createdAt = now,
                 startedAt = None, finishedAt = None, error = None, retryAt = None\<rparr>
        in (s\<lparr>jobs := AList.update uuid j (jobs s),
               jobsByStatus := (jobsByStatus s)(PENDING := set_add uuid (jobsByStatus s PENDING))\<rparr>,
            Inr j))"

text \<open>
  \<^verbatim>\<open>updateJobStatus\<close>: the third argument, the object handed to \<^verbatim>\<open>Object.assign\<close>, is
  the function that writes its properties into the job.
\<close>

definition updateJobStatus ::
  "JobStore \<Rightarrow> jid \<Rightarrow> job_status \<Rightarrow> (job \<Rightarrow> job) \<Rightarrow> JobStore \<times> (err + job)" where
  "updateJobStatus s jobId newStatus updates =
     (case map_of (jobs s) jobId of
        None \<Rightarrow> (s, Inl (NotFound jobId))
      | Some j \<Rightarrow>
          let idx = (jobsByStatus s)(status j := set_delete jobId (jobsByStatus s (status j)));
              j' = updates (j\<lparr>status := newStatus\<rparr>);
              idx' = idx(newStatus := set_add jobId (idx newStatus))
          in (s\<lparr>jobs := AList.update jobId j' (jobs s), jobsByStatus := idx'\<rparr>, Inr j'))"

text \<open>
  \<^verbatim>\<open>markJobStarted\<close> builds its update object first, and that reads
  \<^verbatim>\<open>this.getJob(jobId).attempts\<close>: for an unknown id the read of \<^verbatim>\<open>null.attempts\<close>
  throws before \<^verbatim>\<open>updateJobStatus\<close> is entered.
\<close>

definition markJobStarted :: "JobStore \<Rightarrow> jid \<Rightarrow> int \<Rightarrow> JobStore \<times> (err + job)" where
  "markJobStarted s jobId now =
     (case getJob s jobId of
        None \<Rightarrow> (s, Inl TypeError)
      | Some j0 \<Rightarrow>
          updateJobStatus s jobId RUNNING
            (\<lambda>j. j\<lparr>startedAt := Some now, attempts := attempts j0 + 1\<rparr>))"

definition markJobCompleted :: "JobStore \<Rightarrow> jid \<Rightarrow> int \<Rightarrow> JobStore \<times> (err + job)" where
  "markJobCompleted s jobId now =
     updateJobStatus s jobId COMPLETED (\<lambda>j. j\<lparr>finishedAt := Some now\<rparr>)"

definition markJobFailed :: "JobStore \<Rightarrow> jid \<Rightarrow> string \<Rightarrow> int \<Rightarrow> JobStore \<times> (err + job)" where
  "markJobFailed s jobId msg now =
     (case getJob s jobId of
        None \<Rightarrow> (s, Inl TypeError)
      | Some j0 \<Rightarrow>
          if int (attempts j0) \<ge> maxAttempts j0
          then updateJobStatus s jobId DEAD (\<lambda>j. j\<lparr>finishedAt := Some now, error := Some msg\<rparr>)
          else updateJobStatus s jobId FAILED (\<lambda>j. j\<lparr>error := Some msg\<rparr>))"

definition markJobRetrying :: "JobStore \<Rightarrow> jid \<Rightarrow> int \<Rightarrow> JobStore \<times> (err + job)" where
  "markJobRetrying s jobId t =
     updateJobStatus s jobId RETRYING (\<lambda>j. j\<lparr>retryAt := Some t\<rparr>)"

text \<open>\<^verbatim>\<open>jobIds.map(id => this.jobs.get(id)).filter(Boolean)\<close>\<close>

definition getJobsByStatus :: "JobStore \<Rightarrow> job_status \<Rightarrow> job list" where
  "getJobsByStatus s st = List.map_filter (map_of (jobs s)) (jobsByStatus s st)"

text \<open>\<^verbatim>\<open>job.retryAt && job.retryAt <= now\<close>: an absent or zero \<^verbatim>\<open>retryAt\<close> is falsy.\<close>

definition retry_elapsed :: "int \<Rightarrow> job \<Rightarrow> bool" where
  "retry_elapsed now j =
     (case retryAt j of None \<Rightarrow> False | Some t \<Rightarrow> t \<noteq> 0 \<and> t \<le> now)"

definition getJobsReadyForExecution :: "JobStore \<Rightarrow> int \<Rightarrow> job list" where
  "getJobsReadyForExecution s now =
     getJobsByStatus s PENDING @ filter (retry_elapsed now) (getJobsByStatus s RETRYING)"

definition isJobRunning :: "JobStore \<Rightarrow> jid \<Rightarrow> bool" where
  "isJobRunning s jobId =
     (case getJob s jobId of None \<Rightarrow> False | Some j \<Rightarrow> status j = RUNNING)"

section \<open>QueueManager\<close>

text \<open>
  The manager owns one store and forwards to it. The lifecycle events it emits
  (\<^verbatim>\<open>jobEvents.emit...\<close>) go to listeners that log and count; they do not touch the
  store and are left out.
\<close>

definition qm_createJob ::
  "env \<Rightarrow> JobStore \<Rightarrow> string \<Rightarrow> string \<Rightarrow> options \<Rightarrow> jid \<Rightarrow> int \<Rightarrow> JobStore \<times> (err + job)" where
  "qm_createJob e s type pl opts uuid now =
     (case createJob e s type pl opts uuid now of
        (s', Inr j) \<Rightarrow> (s', Inr j)
      | (s', Inl x) \<Rightarrow> (s', Inl x))"

definition startJob :: "JobStore \<Rightarrow> jid \<Rightarrow> int \<Rightarrow> JobStore \<times> (err + job)" where
  "startJob s jobId now =
     (if isJobRunning s jobId then (s, Inl (AlreadyRunning jobId))
      else markJobStarted s jobId now)"

definition completeJob :: "JobStore \<Rightarrow> jid \<Rightarrow> int \<Rightarrow> JobStore \<times> (err + job)" where
  "completeJob s jobId now = markJobCompleted s jobId now"

text \<open>
  \<^verbatim>\<open>baseDelay * Math.pow(2, attempts)\<close>. The product is exact in JavaScript's doubles
  below \<open>2^53\<close>, which is where every delay of a running system lies.
\<close>

definition calculateRetryDelay :: "env \<Rightarrow> nat \<Rightarrow> int" where
  "calculateRetryDelay e n = RETRY_BACKOFF_BASE_MS e * 2 ^ n"

definition failJob :: "env \<Rightarrow> JobStore \<Rightarrow> jid \<Rightarrow> string \<Rightarrow> int \<Rightarrow> JobStore \<times> (err + job)" where
  "failJob e s jobId msg now =
     (case getJob s jobId of
        None \<Rightarrow> (s, Inl (NotFound jobId))
      | Some j \<Rightarrow>
          if int (attempts j) < maxAttempts j then
            let retryDelay = calculateRetryDelay e (attempts j);
                t = now + retryDelay
            in (case markJobFailed s jobId msg now of
                  (s1, Inl x) \<Rightarrow> (s1, Inl x)
                | (s1, Inr _) \<Rightarrow> markJobRetrying s1 jobId t)
          else markJobFailed s jobId msg now)"

definition qm_getJobsReadyForExecution :: "JobStore \<Rightarrow> int \<Rightarrow> job list" where
  "qm_getJobsReadyForExecution s now = getJobsReadyForExecution s now"


section \<open>Scheduler\<close>

text \<open>
  \<^verbatim>\<open>error.message\<close> of each exception, which \<^verbatim>\<open>dispatchJob\<close> hands to \<^verbatim>\<open>failJob\<close>.
\<close>

definition err_message :: "err \<Rightarrow> string" where
  "err_message x =
     (case x of
        QueueFull \<Rightarrow> ''Queue is at maximum capacity''
      | NotFound i \<Rightarrow> ''Job '' @ i @ '' not found''
      | AlreadyRunning i \<Rightarrow> ''Job '' @ i @ '' is already running''
      | TypeError \<Rightarrow> ''Cannot read properties of null'')"

text \<open>
  The scheduler works on the store of the \<^verbatim>\<open>queueManager\<close> singleton (\<open>queue\<close>).
  JavaScript runs each callback to completion, so the only place where other code
  runs in the middle of \<^verbatim>\<open>dispatchJob\<close> is its \<^verbatim>\<open>await\<close>. The list \<open>suspended\<close>
  records the activations of \<^verbatim>\<open>dispatchJob\<close> that are waiting there, one entry per
  activation: it is the bookkeeping of the event loop, not a field of the class.
\<close>

record Scheduler =
  queue :: JobStore
  isRunning :: bool
  isPaused :: bool
  activeExecutions :: "jid list"
  suspended :: "jid list"

text \<open>How \<^verbatim>\<open>await this.workerPool.executeJob(job)\<close> ends.\<close>

datatype outcome = Resolved | Rejected string

definition Scheduler_new :: "int \<Rightarrow> Scheduler" where
  "Scheduler_new maxSize =
     \<lparr>queue = JobStore_new maxSize, isRunning = False, isPaused = False,
      activeExecutions = [], suspended = []\<rparr>"

definition start :: "Scheduler \<Rightarrow> Scheduler" where
  "start sc = (if isRunning sc then sc else sc\<lparr>isRunning := True, isPaused := False\<rparr>)"

definition pause :: "Scheduler \<Rightarrow> Scheduler" where
  "pause sc = (if \<not> isRunning sc then sc else sc\<lparr>isPaused := True\<rparr>)"

definition resume :: "Scheduler \<Rightarrow> Scheduler" where
  "resume sc = (if \<not> isRunning sc \<or> \<not> isPaused sc then sc else sc\<lparr>isPaused := False\<rparr>)"

definition stop :: "Scheduler \<Rightarrow> Scheduler" where
  "stop sc = sc\<lparr>isRunning := False, isPaused := False\<rparr>"

text \<open>
  \<^verbatim>\<open>dispatchJob\<close> up to its \<^verbatim>\<open>await\<close>. When \<^verbatim>\<open>startJob\<close> throws, the \<^verbatim>\<open>catch\<close> block
  (\<^verbatim>\<open>failJob\<close>) and the \<^verbatim>\<open>finally\<close> block run at once and nothing is left waiting.
\<close>

definition dispatchJob :: "env \<Rightarrow> Scheduler \<Rightarrow> job \<Rightarrow> int \<Rightarrow> Scheduler" where
  "dispatchJob e sc j now =
     (let sc1 = sc\<lparr>activeExecutions := set_add (job_id j) (activeExecutions sc)\<rparr>
      in case startJob (queue sc1) (job_id j) now of
           (q, Inr _) \<Rightarrow> sc1\<lparr>queue := q, suspended := suspended sc1 @ [job_id j]\<rparr>
         | (q, Inl x) \<Rightarrow>
             sc1\<lparr>queue := fst (failJob e q (job_id j) (err_message x) now),
                 activeExecutions := set_delete (job_id j) (activeExecutions sc1)\<rparr>)"

text \<open>
  The rest of \<^verbatim>\<open>dispatchJob\<close>, run when the worker pool's promise settles:
  \<^verbatim>\<open>completeJob\<close> on success, \<^verbatim>\<open>failJob\<close> in the \<^verbatim>\<open>catch\<close> block, and the \<^verbatim>\<open>finally\<close>
  block that removes the id from \<^verbatim>\<open>activeExecutions\<close>.
\<close>

definition dispatchJob_settle :: "env \<Rightarrow> Scheduler \<Rightarrow> jid \<Rightarrow> outcome \<Rightarrow> int \<Rightarrow> Scheduler" where
  "dispatchJob_settle e sc jobId out now =
     (let q' = (case out of
                  Resolved \<Rightarrow>
                    (case completeJob (queue sc) jobId now of
                       (q, Inr _) \<Rightarrow> q
                     | (q, Inl x) \<Rightarrow> fst (failJob e q jobId (err_message x) now))
                | Rejected msg \<Rightarrow> fst (failJob e (queue sc) jobId msg now))
      in sc\<lparr>queue := q',
             activeExecutions := set_delete jobId (activeExecutions sc),
             suspended := remove1 jobId (suspended sc)\<rparr>)"

text \<open>
  The \<^verbatim>\<open>for (const job of jobs)\<close> loop of \<^verbatim>\<open>poll\<close>. \<open>clock\<close> gives the reading of
  \<^verbatim>\<open>Date.now()\<close> at the dispatch of each job.
\<close>

fun dispatch_all :: "env \<Rightarrow> Scheduler \<Rightarrow> job list \<Rightarrow> (jid \<Rightarrow> int) \<Rightarrow> Scheduler" where
  "dispatch_all e sc [] clock = sc"
| "dispatch_all e sc (j # js) clock =
     (if job_id j \<in> set (activeExecutions sc) then dispatch_all e sc js clock
      else dispatch_all e (dispatchJob e sc j (clock (job_id j))) js clock)"

definition poll :: "env \<Rightarrow> Scheduler \<Rightarrow> int \<Rightarrow> (jid \<Rightarrow> int) \<Rightarrow> Scheduler" where
  "poll e sc now clock =
     (if isPaused sc \<or> \<not> isRunning sc then sc
      else dispatch_all e sc (qm_getJobsReadyForExecution (queue sc) now) clock)"

text \<open>
  The states of the running system: jobs are submitted through the manager (each
  with the fresh uuid \<^verbatim>\<open>uuidv4()\<close> draws), the scheduler is started, paused, resumed
  and stopped, polls, and the suspended dispatches settle in any order.
\<close>

inductive reachable :: "env \<Rightarrow> Scheduler \<Rightarrow> bool" for e :: env where
  r_init: "reachable e (Scheduler_new maxSize)"
| r_submit: "reachable e sc \<Longrightarrow> uuid \<notin> fst ` set (jobs (queue sc)) \<Longrightarrow>
     reachable e (sc\<lparr>queue := fst (qm_createJob e (queue sc) type pl opts uuid now)\<rparr>)"
| r_start: "reachable e sc \<Longrightarrow> reachable e (start sc)"
| r_pause: "reachable e sc \<Longrightarrow> reachable e (pause sc)"
| r_resume: "reachable e sc \<Longrightarrow> reachable e (resume sc)"
| r_stop: "reachable e sc \<Longrightarrow> reachable e (stop sc)"
| r_poll: "reachable e sc \<Longrightarrow> reachable e (poll e sc now clock)"
| r_settle: "reachable e sc \<Longrightarrow> jobId \<in> set (suspended sc) \<Longrightarrow>
     reachable e (dispatchJob_settle e sc jobId out now)"

section \<open>Well-formed stores\<close>

text \<open>
  The store's own consistency: the keys of \<^verbatim>\<open>jobs\<close> are distinct and each job is
  stored under its own id; every status set is duplicate-free and holds exactly the
  ids of the jobs with that status.
\<close>

definition store_inv :: "JobStore \<Rightarrow> bool" where
  "store_inv s \<longleftrightarrow>
     distinct (map fst (jobs s)) \<and>
     (\<forall>i j. getJob s i = Some j \<longrightarrow> job_id j = i) \<and>
     (\<forall>st. distinct (jobsByStatus s st)) \<and>
     (\<forall>st i. i \<in> set (jobsByStatus s st) \<longleftrightarrow> (\<exists>j. getJob s i = Some j \<and> status j = st))"

text \<open>
  What the running system does to the store, seen from the store alone: jobs are
  created, \<open>startJob\<close> is called on jobs that are PENDING or RETRYING (the scheduler
  starts only what \<open>getJobsReadyForExecution\<close> returned), and \<open>completeJob\<close> and
  \<open>failJob\<close> are called when a dispatch settles.
\<close>

inductive store_reachable :: "env \<Rightarrow> JobStore \<Rightarrow> bool" for e :: env where
  sr_new: "store_reachable e (JobStore_new maxSize)"
| sr_create: "store_reachable e s \<Longrightarrow> uuid \<notin> fst ` set (jobs s) \<Longrightarrow>
     store_reachable e (fst (qm_createJob e s type pl opts uuid now))"
| sr_start: "store_reachable e s \<Longrightarrow> getJob s i = Some j \<Longrightarrow>
     status j = PENDING \<or> status j = RETRYING \<Longrightarrow>
     store_reachable e (fst (startJob s i now))"
| sr_complete: "store_reachable e s \<Longrightarrow> store_reachable e (fst (completeJob s i now))"
| sr_fail: "store_reachable e s \<Longrightarrow> store_reachable e (fst (failJob e s i msg now))"

text \<open>
  The attempt counter of one job. A job is dispatched at least once whatever its
  limit, so the counter is bounded by the limit or by 1; a job that waits for a retry
  has an attempt left, and a dead job has none.
\<close>

definition attempts_ok :: "job \<Rightarrow> bool" where
  "attempts_ok j \<longleftrightarrow>
     int (attempts j) \<le> max 1 (maxAttempts j) \<and>
     (status j = DEAD \<longrightarrow> maxAttempts j \<le> int (attempts j)) \<and>
     (status j = PENDING \<longrightarrow> attempts j = 0) \<and>
     (status j = RETRYING \<longrightarrow> int (attempts j) < maxAttempts j)"

text \<open>The PENDING set lists the PENDING jobs in the order of the \<^verbatim>\<open>jobs\<close> map.\<close>

definition pending_in_creation_order :: "JobStore \<Rightarrow> bool" where
  "pending_in_creation_order s \<longleftrightarrow>
     jobsByStatus s PENDING = map fst (filter (\<lambda>(i, j). status j = PENDING) (jobs s))"

text \<open>
  The running system together with its history. \<open>cs\<close> lists the ids of the jobs in
  the order in which they were created: a successful submission adds its id at the
  end. \<open>rs\<close> lists the ids of the jobs that are RETRYING in the order in which they
  entered that status: a job joins at the end when the settling dispatch leaves it
  RETRYING, and it leaves the list when a poll starts it. Both lists are read off the
  steps and the status of the jobs, not off the order inside the store.
\<close>

definition has_status :: "JobStore \<Rightarrow> job_status \<Rightarrow> jid \<Rightarrow> bool" where
  "has_status s st i = (case getJob s i of None \<Rightarrow> False | Some j \<Rightarrow> status j = st)"

inductive run :: "env \<Rightarrow> Scheduler \<Rightarrow> jid list \<Rightarrow> jid list \<Rightarrow> bool" for e :: env where
  run_init: "run e (Scheduler_new maxSize) [] []"
| run_submit: "run e sc cs rs \<Longrightarrow> uuid \<notin> fst ` set (jobs (queue sc)) \<Longrightarrow>
     run e (sc\<lparr>queue := fst (qm_createJob e (queue sc) type pl opts uuid now)\<rparr>)
       (if isl (snd (qm_createJob e (queue sc) type pl opts uuid now)) then cs else cs @ [uuid])
       rs"
| run_start: "run e sc cs rs \<Longrightarrow> run e (start sc) cs rs"
| run_pause: "run e sc cs rs \<Longrightarrow> run e (pause sc) cs rs"
| run_resume: "run e sc cs rs \<Longrightarrow> run e (resume sc) cs rs"
| run_stop: "run e sc cs rs \<Longrightarrow> run e (stop sc) cs rs"
| run_poll: "run e sc cs rs \<Longrightarrow>
     run e (poll e sc now clock) cs
       (filter (has_status (queue (poll e sc now clock)) RETRYING) rs)"
| run_settle: "run e sc cs rs \<Longrightarrow> jobId \<in> set (suspended sc) \<Longrightarrow>
     run e (dispatchJob_settle e sc jobId out now) cs
       (if has_status (queue (dispatchJob_settle e sc jobId out now)) RETRYING jobId
        then removeAll jobId rs @ [jobId] else removeAll jobId rs)"

section \<open>Example run\<close>

definition ex_env :: env where
  "ex_env = \<lparr>MAX_JOB_ATTEMPTS = 3, RETRY_BACKOFF_BASE_MS = 1000\<rparr>"

definition no_options :: options where
  "no_options = \<lparr>opt_maxAttempts = None\<rparr>"

text \<open>Job \<open>a\<close> is created at time 1 and started at time 2.\<close>

definition ex_created :: JobStore where
  "ex_created = fst (qm_createJob ex_env (JobStore_new 2) ''SEND_EMAIL'' ''mail'' no_options ''a'' 1)"

definition ex_running :: JobStore where
  "ex_running = fst (startJob ex_created ''a'' 2)"

text \<open>Its first attempt fails at time 5000; the job waits for its retry.\<close>

definition ex_retrying :: JobStore where
  "ex_retrying = fst (failJob ex_env ex_running ''a'' ''boom'' 5000)"

text \<open>Job \<open>b\<close> is submitted at time 6000, while \<open>a\<close> waits for its retry.\<close>

definition ex_two :: JobStore where
  "ex_two = fst (qm_createJob ex_env ex_retrying ''SEND_EMAIL'' ''mail'' no_options ''b'' 6000)"

text \<open>Job \<open>d\<close> has a single attempt, which fails at time 3: the job is dead.\<close>

definition ex_dead :: JobStore where
  "ex_dead =
     fst (failJob ex_env
            (fst (startJob
                    (fst (qm_createJob ex_env (JobStore_new 2) ''SEND_EMAIL'' ''mail''
                            \<lparr>opt_maxAttempts = Some 1\<rparr> ''d'' 1))
                    ''d'' 2))
            ''d'' ''boom'' 3)"

text \<open>
  The same under the scheduler: job \<open>d\<close> is submitted at time 1; the started
  scheduler polls at time 2 and dispatches it; the worker pool rejects at time 3.
\<close>

definition ex_sched0 :: Scheduler where
  "ex_sched0 =
     start ((Scheduler_new 2)
       \<lparr>queue := fst (qm_createJob ex_env (queue (Scheduler_new 2)) ''SEND_EMAIL'' ''mail''
                       \<lparr>opt_maxAttempts = Some 1\<rparr> ''d'' 1)\<rparr>)"

definition ex_sched1 :: Scheduler where
  "ex_sched1 = poll ex_env ex_sched0 2 (\<lambda>_. 2)"

definition ex_sched2 :: Scheduler where
  "ex_sched2 = dispatchJob_settle ex_env ex_sched1 ''d'' (Rejected ''boom'') 3"

text \<open>
  The run of the scheduler with jobs \<open>a\<close> and \<open>b\<close>: \<open>a\<close> is submitted and dispatched,
  the worker pool rejects at time 5000, and \<open>b\<close> is submitted at 6000.
\<close>

definition ex_run0 :: Scheduler where
  "ex_run0 =
     start ((Scheduler_new 2)
       \<lparr>queue := fst (qm_createJob ex_env (queue (Scheduler_new 2)) ''SEND_EMAIL'' ''mail''
                       no_options ''a'' 1)\<rparr>)"

definition ex_run1 :: Scheduler where
  "ex_run1 = poll ex_env ex_run0 2 (\<lambda>_. 2)"

definition ex_run2 :: Scheduler where
  "ex_run2 = dispatchJob_settle ex_env ex_run1 ''a'' (Rejected ''boom'') 5000"

definition ex_run3 :: Scheduler where
  "ex_run3 =
     ex_run2\<lparr>queue := fst (qm_createJob ex_env (queue ex_run2) ''SEND_EMAIL'' ''mail''
                            no_options ''b'' 6000)\<rparr>"

text \<open>
  The scheduler with \<^verbatim>\<open>MAX_JOB_ATTEMPTS=0\<close>: job \<open>z\<close> is submitted without options at
  time 1, dispatched by the poll at time 2, and the worker pool rejects at time 3.
\<close>

definition ex_env0 :: env where
  "ex_env0 = \<lparr>MAX_JOB_ATTEMPTS = 0, RETRY_BACKOFF_BASE_MS = 1000\<rparr>"

definition ex_zero0 :: Scheduler where
  "ex_zero0 =
     start ((Scheduler_new 2)
       \<lparr>queue := fst (qm_createJob ex_env0 (queue (Scheduler_new 2)) ''SEND_EMAIL'' ''mail''
                       no_options ''z'' 1)\<rparr>)"

definition ex_zero1 :: Scheduler where
  "ex_zero1 = poll ex_env0 ex_zero0 2 (\<lambda>_. 2)"

definition ex_zero2 :: Scheduler where
  "ex_zero2 = dispatchJob_settle ex_env0 ex_zero1 ''z'' (Rejected ''boom'') 3"

text \<open>Jobs \<open>b\<close> and \<open>a\<close> are submitted in this order, both at time 1.\<close>

definition ex_tie :: Scheduler where
  "ex_tie =
     (Scheduler_new 2)
       \<lparr>queue := fst (qm_createJob ex_env
                       (fst (qm_createJob ex_env (queue (Scheduler_new 2)) ''SEND_EMAIL'' ''mail''
                               no_options ''b'' 1))
                       ''SEND_EMAIL'' ''mail'' no_options ''a'' 1)\<rparr>"

section \<open>Effect of the operations on one job\<close>

lemma getJob_keys: "getJob s i = Some j \<Longrightarrow> i \<in> fst ` set (jobs s)"
  unfolding getJob_def by (metis map_of_eq_None_iff option.distinct(1))

lemma updateJobStatus_None:
  "getJob s i = None \<Longrightarrow> updateJobStatus s i st u = (s, Inl (NotFound i))"
  by (simp add: updateJobStatus_def getJob_def)

lemma updateJobStatus_Some:
  assumes "getJob s i = Some j"
  shows "snd (updateJobStatus s i st u) = Inr (u (j\<lparr>status := st\<rparr>))"
    and "getJob (fst (updateJobStatus s i st u)) = (getJob s)(i \<mapsto> u (j\<lparr>status := st\<rparr>))"
  using assms
  by (simp_all add: updateJobStatus_def getJob_def Let_def update_conv' fun_eq_iff)

lemma length_AList_update:
  "length (AList.update k v al) = (if k \<in> fst ` set al then length al else Suc (length al))"
  by (induction al) auto

lemma updateJobStatus_frame:
  "maxQueueSize (fst (updateJobStatus s i st u)) = maxQueueSize s"
  "length (jobs (fst (updateJobStatus s i st u))) = length (jobs s)"
  "fst ` set (jobs (fst (updateJobStatus s i st u))) = fst ` set (jobs s)"
  using getJob_keys[of s i]
  by (auto simp: updateJobStatus_def getJob_def Let_def length_AList_update dom_update split: option.splits)

lemma updateJobStatus_other:
  "i' \<noteq> i \<Longrightarrow> getJob (fst (updateJobStatus s i st u)) i' = getJob s i'"
  by (cases "getJob s i") (simp_all add: updateJobStatus_None updateJobStatus_Some)

lemma failJob_retry:
  assumes "getJob s i = Some j" and "int (attempts j) < maxAttempts j"
  shows "snd (failJob e s i msg now) =
           Inr (j\<lparr>status := RETRYING, error := Some msg,
                   retryAt := Some (now + RETRY_BACKOFF_BASE_MS e * 2 ^ attempts j)\<rparr>)"
    and "getJob (fst (failJob e s i msg now)) =
           (getJob s)(i \<mapsto> j\<lparr>status := RETRYING, error := Some msg,
                   retryAt := Some (now + RETRY_BACKOFF_BASE_MS e * 2 ^ attempts j)\<rparr>)"
    and "snd (markJobFailed s i msg now) = Inr (j\<lparr>status := FAILED, error := Some msg\<rparr>)"
proof -
  let ?s1 = "fst (updateJobStatus s i FAILED (\<lambda>j. j\<lparr>error := Some msg\<rparr>))"
  have mf: "markJobFailed s i msg now = updateJobStatus s i FAILED (\<lambda>j. j\<lparr>error := Some msg\<rparr>)"
    using assms by (simp add: markJobFailed_def)
  have g1: "getJob ?s1 i = Some (j\<lparr>status := FAILED, error := Some msg\<rparr>)"
    using assms(1) by (simp add: updateJobStatus_Some)
  have r1: "snd (updateJobStatus s i FAILED (\<lambda>j. j\<lparr>error := Some msg\<rparr>)) = Inr (j\<lparr>status := FAILED, error := Some msg\<rparr>)"
    using assms(1) by (simp add: updateJobStatus_Some)
  have fj: "failJob e s i msg now = markJobRetrying ?s1 i (now + calculateRetryDelay e (attempts j))"
    using assms r1
    by (cases "updateJobStatus s i FAILED (\<lambda>j. j\<lparr>error := Some msg\<rparr>)")
       (simp add: failJob_def mf Let_def)
  show "snd (failJob e s i msg now) =
           Inr (j\<lparr>status := RETRYING, error := Some msg,
                   retryAt := Some (now + RETRY_BACKOFF_BASE_MS e * 2 ^ attempts j)\<rparr>)"
    by (simp add: fj markJobRetrying_def updateJobStatus_Some(1)[OF g1] calculateRetryDelay_def)
  show "getJob (fst (failJob e s i msg now)) =
           (getJob s)(i \<mapsto> j\<lparr>status := RETRYING, error := Some msg,
                   retryAt := Some (now + RETRY_BACKOFF_BASE_MS e * 2 ^ attempts j)\<rparr>)"
    using assms(1)
    by (simp add: fj markJobRetrying_def updateJobStatus_Some(2)[OF g1] updateJobStatus_Some(2)[OF assms(1)] calculateRetryDelay_def)
       (rule arg_cong[where f="\<lambda>x. (getJob s)(i \<mapsto> x)"], rule job.equality, simp_all)
  show "snd (markJobFailed s i msg now) = Inr (j\<lparr>status := FAILED, error := Some msg\<rparr>)"
    by (simp add: mf r1)
qed

lemma failJob_dead:
  assumes "getJob s i = Some j" and "\<not> int (attempts j) < maxAttempts j"
  shows "snd (failJob e s i msg now) =
           Inr (j\<lparr>status := DEAD, finishedAt := Some now, error := Some msg\<rparr>)"
    and "getJob (fst (failJob e s i msg now)) =
           (getJob s)(i \<mapsto> j\<lparr>status := DEAD, finishedAt := Some now, error := Some msg\<rparr>)"
  using assms
  by (simp_all add: failJob_def markJobFailed_def updateJobStatus_Some)

lemma failJob_None:
  "getJob s i = None \<Longrightarrow> failJob e s i msg now = (s, Inl (NotFound i))"
  by (simp add: failJob_def)

lemma completeJob_Some:
  assumes "getJob s i = Some j"
  shows "snd (completeJob s i now) = Inr (j\<lparr>status := COMPLETED, finishedAt := Some now\<rparr>)"
    and "getJob (fst (completeJob s i now)) = (getJob s)(i \<mapsto> j\<lparr>status := COMPLETED, finishedAt := Some now\<rparr>)"
  using assms by (simp_all add: completeJob_def markJobCompleted_def updateJobStatus_Some)

lemma completeJob_None:
  "getJob s i = None \<Longrightarrow> completeJob s i now = (s, Inl (NotFound i))"
  by (simp add: completeJob_def markJobCompleted_def updateJobStatus_None)

lemma startJob_Some:
  assumes "getJob s i = Some j" and "status j \<noteq> RUNNING"
  shows "snd (startJob s i now) = Inr (j\<lparr>status := RUNNING, startedAt := Some now, attempts := Suc (attempts j)\<rparr>)"
    and "getJob (fst (startJob s i now)) = (getJob s)(i \<mapsto> j\<lparr>status := RUNNING, startedAt := Some now, attempts := Suc (attempts j)\<rparr>)"
  using assms by (simp_all add: startJob_def isJobRunning_def markJobStarted_def updateJobStatus_Some)

lemma startJob_running:
  "getJob s i = Some j \<Longrightarrow> status j = RUNNING \<Longrightarrow> startJob s i now = (s, Inl (AlreadyRunning i))"
  by (simp add: startJob_def isJobRunning_def)

lemma startJob_None:
  "getJob s i = None \<Longrightarrow> startJob s i now = (s, Inl TypeError)"
  by (simp add: startJob_def isJobRunning_def markJobStarted_def)

lemma ex_created_job: "getJob ex_created ''a'' = Some \<lparr>job_id = ''a'', job_type = ''SEND_EMAIL'', payload = ''mail'', status = PENDING,
                 attempts = 0, maxAttempts = 3, createdAt = 1,
                 startedAt = None, finishedAt = None, error = None, retryAt = None\<rparr>"
  by (simp add: ex_created_def qm_createJob_def createJob_def JobStore_new_def getJob_def Let_def maxAttempts_of_def no_options_def ex_env_def)

lemma ex_running_job: "getJob ex_running ''a'' = Some \<lparr>job_id = ''a'', job_type = ''SEND_EMAIL'', payload = ''mail'', status = RUNNING,
                 attempts = 1, maxAttempts = 3, createdAt = 1,
                 startedAt = Some 2, finishedAt = None, error = None, retryAt = None\<rparr>"
  by (simp add: ex_running_def startJob_Some(2)[OF ex_created_job])

lemma createJob_ok:
  assumes "int (length (jobs s)) < maxQueueSize s"
  shows "\<exists>j. snd (qm_createJob e s type pl opts uuid now) = Inr j \<and>
           getJob (fst (qm_createJob e s type pl opts uuid now)) = (getJob s)(uuid \<mapsto> j) \<and>
           job_id j = uuid \<and> status j = PENDING \<and> attempts j = 0 \<and>
           maxAttempts j = maxAttempts_of e opts \<and> createdAt j = now"
  using assms
  by (simp add: qm_createJob_def createJob_def Let_def getJob_def update_conv' fun_eq_iff)

lemma createJob_full:
  "maxQueueSize s \<le> int (length (jobs s)) \<Longrightarrow>
     qm_createJob e s type pl opts uuid now = (s, Inl QueueFull)"
  by (simp add: qm_createJob_def createJob_def)

lemma createJob_length:
  "int (length (jobs s)) < maxQueueSize s \<Longrightarrow>
   length (jobs (fst (qm_createJob e s type pl opts uuid now))) =
     (if uuid \<in> fst ` set (jobs s) then length (jobs s) else Suc (length (jobs s)))"
  by (simp add: qm_createJob_def createJob_def Let_def length_AList_update)

lemma ex_retrying_job: "getJob ex_retrying ''a'' = Some \<lparr>job_id = ''a'', job_type = ''SEND_EMAIL'', payload = ''mail'', status = RETRYING,
                 attempts = 1, maxAttempts = 3, createdAt = 1,
                 startedAt = Some 2, finishedAt = None, error = Some ''boom'', retryAt = Some 7000\<rparr>"
  by (simp add: ex_retrying_def failJob_retry(2)[OF ex_running_job] ex_env_def)

lemma ex_dead_job: "getJob ex_dead ''d'' = Some \<lparr>job_id = ''d'', job_type = ''SEND_EMAIL'', payload = ''mail'', status = DEAD,
                 attempts = 1, maxAttempts = 1, createdAt = 1,
                 startedAt = Some 2, finishedAt = Some 3, error = Some ''boom'', retryAt = None\<rparr>"
  by (simp add: ex_dead_def qm_createJob_def createJob_def JobStore_new_def Let_def maxAttempts_of_def
        startJob_def isJobRunning_def markJobStarted_def failJob_def markJobFailed_def updateJobStatus_def getJob_def update_conv')

section \<open>The store stays well-formed\<close>

lemma set_set_add [simp]: "set (set_add x xs) = insert x (set xs)"
  by (auto simp: set_add_def)

lemma distinct_set_add [simp]: "distinct xs \<Longrightarrow> distinct (set_add x xs)"
  by (simp add: set_add_def)

lemma set_set_delete [simp]: "set (set_delete x xs) = set xs - {x}"
  by (auto simp: set_delete_def)

lemma distinct_set_delete [simp]: "distinct xs \<Longrightarrow> distinct (set_delete x xs)"
  by (simp add: set_delete_def distinct_removeAll)

lemma store_inv_new: "store_inv (JobStore_new m)"
  by (simp add: store_inv_def JobStore_new_def getJob_def)

lemma store_inv_update:
  assumes inv: "store_inv s"
    and u: "\<And>x. status (u x) = status x \<and> job_id (u x) = job_id x"
  shows "store_inv (fst (updateJobStatus s i st u))"
proof (cases "getJob s i")
  case None
  then show ?thesis using inv by (simp add: updateJobStatus_None)
next
  case (Some j)
  let ?j' = "u (j\<lparr>status := st\<rparr>)"
  let ?s' = "fst (updateJobStatus s i st u)"
  have g: "getJob ?s' = (getJob s)(i \<mapsto> ?j')"
    by (rule updateJobStatus_Some(2)[OF Some])
  have idj: "job_id j = i" using inv Some by (simp add: store_inv_def)
  have st': "status ?j' = st" and id': "job_id ?j' = i"
    using u idj by simp_all
  have idx: "jobsByStatus ?s' =
      ((jobsByStatus s)(status j := set_delete i (jobsByStatus s (status j))))
        (st := set_add i (((jobsByStatus s)(status j := set_delete i (jobsByStatus s (status j)))) st))"
    using Some by (simp add: updateJobStatus_def getJob_def Let_def)
  have d1: "distinct (map fst (jobs ?s'))"
    using inv Some by (simp add: updateJobStatus_def getJob_def Let_def store_inv_def distinct_update)
  have d2: "\<forall>k v. getJob ?s' k = Some v \<longrightarrow> job_id v = k"
    using inv id' by (auto simp: g store_inv_def)
  have d3: "\<forall>t. distinct (jobsByStatus ?s' t)"
    using inv by (simp add: idx store_inv_def)
  have d4: "\<forall>t k. k \<in> set (jobsByStatus ?s' t) \<longleftrightarrow> (\<exists>v. getJob ?s' k = Some v \<and> status v = t)"
  proof (intro allI)
    fix t k
    have old: "\<And>t k. k \<in> set (jobsByStatus s t) \<longleftrightarrow> (\<exists>v. getJob s k = Some v \<and> status v = t)"
      using inv by (simp add: store_inv_def)
    show "k \<in> set (jobsByStatus ?s' t) \<longleftrightarrow> (\<exists>v. getJob ?s' k = Some v \<and> status v = t)"
      using Some st' by (auto simp: idx g old)
  qed
  show ?thesis
    unfolding store_inv_def using d1 d2 d3 d4 by blast
qed

lemma store_inv_createJob:
  assumes inv: "store_inv s" and fresh: "uuid \<notin> fst ` set (jobs s)"
  shows "store_inv (fst (qm_createJob e s type pl opts uuid now))"
proof (cases "int (length (jobs s)) < maxQueueSize s")
  case False
  then show ?thesis using inv by (simp add: createJob_full)
next
  case True
  let ?s' = "fst (qm_createJob e s type pl opts uuid now)"
  from createJob_ok[OF True, of e type pl opts uuid now]
  obtain j where j: "getJob ?s' = (getJob s)(uuid \<mapsto> j)" "job_id j = uuid" "status j = PENDING"
    by blast
  have none: "getJob s uuid = None"
    using fresh by (simp add: getJob_def map_of_eq_None_iff)
  have idx: "jobsByStatus ?s' = (jobsByStatus s)(PENDING := set_add uuid (jobsByStatus s PENDING))"
    using True by (simp add: qm_createJob_def createJob_def Let_def)
  have d1: "distinct (map fst (jobs ?s'))"
    using inv True by (simp add: qm_createJob_def createJob_def Let_def store_inv_def distinct_update)
  have d2: "\<forall>k v. getJob ?s' k = Some v \<longrightarrow> job_id v = k"
    using inv j by (auto simp: store_inv_def)
  have d3: "\<forall>t. distinct (jobsByStatus ?s' t)"
    using inv by (simp add: idx store_inv_def)
  have old: "\<And>t k. k \<in> set (jobsByStatus s t) \<longleftrightarrow> (\<exists>v. getJob s k = Some v \<and> status v = t)"
    using inv by (simp add: store_inv_def)
  have d4: "\<forall>t k. k \<in> set (jobsByStatus ?s' t) \<longleftrightarrow> (\<exists>v. getJob ?s' k = Some v \<and> status v = t)"
    using none j by (auto simp: idx old)
  show ?thesis
    unfolding store_inv_def using d1 d2 d3 d4 by blast
qed

lemma store_inv_markJobStarted: "store_inv s \<Longrightarrow> store_inv (fst (markJobStarted s i now))"
  by (auto simp: markJobStarted_def store_inv_update split: option.splits)

lemma store_inv_startJob: "store_inv s \<Longrightarrow> store_inv (fst (startJob s i now))"
  by (simp add: startJob_def store_inv_markJobStarted)

lemma store_inv_completeJob: "store_inv s \<Longrightarrow> store_inv (fst (completeJob s i now))"
  by (simp add: completeJob_def markJobCompleted_def store_inv_update)

lemma store_inv_markJobFailed: "store_inv s \<Longrightarrow> store_inv (fst (markJobFailed s i msg now))"
  by (auto simp: markJobFailed_def store_inv_update split: option.splits)

lemma store_inv_markJobRetrying: "store_inv s \<Longrightarrow> store_inv (fst (markJobRetrying s i t))"
  by (simp add: markJobRetrying_def store_inv_update)

lemma store_inv_failJob: "store_inv s \<Longrightarrow> store_inv (fst (failJob e s i msg now))"
proof -
  assume inv: "store_inv s"
  have a: "store_inv (fst (markJobFailed s i msg now))"
    by (rule store_inv_markJobFailed[OF inv])
  show ?thesis
    using inv a store_inv_markJobRetrying[OF a]
    by (cases "markJobFailed s i msg now")
       (auto simp: failJob_def Let_def split: option.splits sum.splits)
qed

section \<open>Jobs by status\<close>

lemma set_map_filter_eq: "set (List.map_filter f xs) = {y. \<exists>x\<in>set xs. f x = Some y}"
  by (induction xs) (auto split: option.splits)

lemma map_map_filter_id:
  "(\<And>x. x \<in> set xs \<Longrightarrow> \<exists>y. m x = Some y \<and> f y = x) \<Longrightarrow> map f (List.map_filter m xs) = xs"
  by (induction xs) (fastforce split: option.splits)+

lemma getJobsByStatus_alt:
  "getJobsByStatus s st = List.map_filter (getJob s) (jobsByStatus s st)"
proof -
  have "map_of (jobs s) = getJob s" by (rule ext) (simp add: getJob_def)
  then show ?thesis by (simp add: getJobsByStatus_def)
qed

lemma getJobsByStatus_set:
  assumes "store_inv s"
  shows "set (getJobsByStatus s st) = {j. (\<exists>i. getJob s i = Some j) \<and> status j = st}"
proof -
  have idx: "\<And>t k. k \<in> set (jobsByStatus s t) \<longleftrightarrow> (\<exists>v. getJob s k = Some v \<and> status v = t)"
    using assms by (simp add: store_inv_def)
  show ?thesis
    by (auto simp: getJobsByStatus_alt set_map_filter_eq idx)
qed

lemma getJobsByStatus_ids:
  assumes "store_inv s"
  shows "map job_id (getJobsByStatus s st) = jobsByStatus s st"
  unfolding getJobsByStatus_alt
proof (rule map_map_filter_id)
  fix x assume "x \<in> set (jobsByStatus s st)"
  then obtain j where "getJob s x = Some j" using assms by (auto simp: store_inv_def)
  moreover from this have "job_id j = x" using assms by (simp add: store_inv_def)
  ultimately show "\<exists>y. getJob s x = Some y \<and> job_id y = x"
    by simp
qed

lemma getJobsByStatus_distinct:
  assumes "store_inv s"
  shows "distinct (map job_id (getJobsByStatus s st))"
  using assms by (simp add: getJobsByStatus_ids store_inv_def)

lemma getJobsByStatus_lookup:
  assumes "store_inv s" and "j \<in> set (getJobsByStatus s st)"
  shows "getJob s (job_id j) = Some j \<and> status j = st"
  using assms by (auto simp: getJobsByStatus_set store_inv_def)

lemma ready_distinct:
  assumes "store_inv s"
  shows "distinct (map job_id (getJobsReadyForExecution s now))"
proof -
  have "set (jobsByStatus s PENDING) \<inter> set (jobsByStatus s RETRYING) = {}"
    using assms by (auto simp: store_inv_def)
  then have "set (map job_id (getJobsByStatus s PENDING)) \<inter>
        set (map job_id (filter (retry_elapsed now) (getJobsByStatus s RETRYING))) = {}"
    unfolding getJobsByStatus_ids[OF assms, symmetric] by auto
  then show ?thesis
    using getJobsByStatus_distinct[OF assms]
    by (simp add: getJobsReadyForExecution_def distinct_map_filter)
qed

lemma ready_lookup:
  assumes "store_inv s" and "j \<in> set (getJobsReadyForExecution s now)"
  shows "getJob s (job_id j) = Some j \<and> (status j = PENDING \<or> status j = RETRYING)"
  using assms getJobsByStatus_lookup[OF assms(1)]
  by (auto simp: getJobsReadyForExecution_def)

lemma store_inv_ex_retrying: "store_inv ex_retrying"
  unfolding ex_retrying_def ex_running_def ex_created_def
  by (intro store_inv_failJob store_inv_startJob store_inv_createJob store_inv_new)
     (simp add: JobStore_new_def)

lemma ex_retrying_only: "getJob ex_retrying i = Some j \<Longrightarrow> i = ''a''"
  by (cases "i = ''a''")
     (simp_all add: ex_retrying_def ex_running_def ex_created_def ex_env_def no_options_def
        qm_createJob_def createJob_def JobStore_new_def Let_def maxAttempts_of_def
        startJob_def isJobRunning_def markJobStarted_def failJob_def markJobFailed_def
        markJobRetrying_def calculateRetryDelay_def updateJobStatus_def getJob_def)

lemma ex_two_ready: "map job_id (getJobsReadyForExecution ex_two 7000) = [''b'', ''a''] \<and> map createdAt (getJobsReadyForExecution ex_two 7000) = [6000, 1]"
  by (simp add: ex_two_def ex_retrying_def ex_running_def ex_created_def ex_env_def no_options_def
      qm_createJob_def createJob_def JobStore_new_def Let_def maxAttempts_of_def
      startJob_def isJobRunning_def markJobStarted_def failJob_def markJobFailed_def
      markJobRetrying_def calculateRetryDelay_def updateJobStatus_def getJob_def
      getJobsReadyForExecution_def getJobsByStatus_def retry_elapsed_def set_add_def set_delete_def)

section \<open>The scheduler's effect on the store\<close>

lemma store_reachable_inv: "store_reachable e s \<Longrightarrow> store_inv s"
  by (induction rule: store_reachable.induct)
     (simp_all add: store_inv_new store_inv_createJob store_inv_startJob
        store_inv_completeJob store_inv_failJob)

lemma startJob_other:
  "i' \<noteq> i \<Longrightarrow> getJob (fst (startJob s i now)) i' = getJob s i'"
  by (auto simp: startJob_def markJobStarted_def updateJobStatus_other split: option.splits)

text \<open>A job that is PENDING or RETRYING is started; the dispatch then waits.\<close>

lemma dispatchJob_ready:
  assumes "getJob (queue sc) (job_id j) = Some j'" and "status j' = PENDING \<or> status j' = RETRYING"
  shows "queue (dispatchJob e sc j t) = fst (startJob (queue sc) (job_id j) t)"
proof -
  have ne: "status j' \<noteq> RUNNING" using assms(2) by auto
  show ?thesis
    using startJob_Some(1)[OF assms(1) ne, of t]
    by (cases "startJob (queue sc) (job_id j) t") (simp add: dispatchJob_def Let_def)
qed

lemma dispatch_all_store_reachable:
  assumes "store_reachable e (queue sc)"
    and "distinct (map job_id js)"
    and "\<forall>j \<in> set js. \<exists>j'. getJob (queue sc) (job_id j) = Some j' \<and>
            (status j' = PENDING \<or> status j' = RETRYING)"
  shows "store_reachable e (queue (dispatch_all e sc js clock))"
  using assms
proof (induction js arbitrary: sc)
  case Nil
  then show ?case by simp
next
  case (Cons j js)
  show ?case
  proof (cases "job_id j \<in> set (activeExecutions sc)")
    case True
    then show ?thesis using Cons by simp
  next
    case False
    let ?sc' = "dispatchJob e sc j (clock (job_id j))"
    from Cons.prems(3) obtain j' where j': "getJob (queue sc) (job_id j) = Some j'"
      "status j' = PENDING \<or> status j' = RETRYING" by auto
    have q: "queue ?sc' = fst (startJob (queue sc) (job_id j) (clock (job_id j)))"
      by (rule dispatchJob_ready[OF j'])
    have r: "store_reachable e (queue ?sc')"
      unfolding q by (rule sr_start[OF Cons.prems(1) j'])
    have rest: "\<forall>k \<in> set js. \<exists>k'. getJob (queue ?sc') (job_id k) = Some k' \<and>
            (status k' = PENDING \<or> status k' = RETRYING)"
    proof
      fix k assume k: "k \<in> set js"
      have "job_id j \<notin> job_id ` set js" using Cons.prems(2) by simp
      with k have "job_id k \<noteq> job_id j" by (metis imageI)
      then have "getJob (queue ?sc') (job_id k) = getJob (queue sc) (job_id k)"
        unfolding q by (rule startJob_other)
      then show "\<exists>k'. getJob (queue ?sc') (job_id k) = Some k' \<and>
            (status k' = PENDING \<or> status k' = RETRYING)"
        using Cons.prems(3) k by simp
    qed
    have "store_reachable e (queue (dispatch_all e ?sc' js clock))"
      using Cons.IH[OF r _ rest] Cons.prems(2) by simp
    then show ?thesis using False by simp
  qed
qed

lemma poll_store_reachable:
  assumes "store_reachable e (queue sc)"
  shows "store_reachable e (queue (poll e sc now clock))"
proof (cases "isPaused sc \<or> \<not> isRunning sc")
  case True
  then show ?thesis using assms by (simp add: poll_def)
next
  case False
  have inv: "store_inv (queue sc)" by (rule store_reachable_inv[OF assms])
  have "store_reachable e
          (queue (dispatch_all e sc (getJobsReadyForExecution (queue sc) now) clock))"
    using ready_lookup[OF inv]
    by (intro dispatch_all_store_reachable[OF assms ready_distinct[OF inv]]) blast
  then show ?thesis using False by (simp add: poll_def qm_getJobsReadyForExecution_def)
qed

lemma settle_store_reachable:
  assumes "store_reachable e (queue sc)"
  shows "store_reachable e (queue (dispatchJob_settle e sc i out now))"
proof (cases out)
  case Resolved
  have c: "store_reachable e (fst (completeJob (queue sc) i now))"
    by (rule sr_complete[OF assms])
  show ?thesis
    using c sr_fail[OF c]
    by (cases "completeJob (queue sc) i now")
       (auto simp: dispatchJob_settle_def Resolved split: sum.splits)
next
  case (Rejected msg)
  show ?thesis
    using sr_fail[OF assms] by (simp add: dispatchJob_settle_def Rejected)
qed

lemma reachable_store: "reachable e sc \<Longrightarrow> store_reachable e (queue sc)"
proof (induction rule: reachable.induct)
  case (r_init maxSize)
  show ?case by (simp add: Scheduler_new_def sr_new)
next
  case (r_submit sc uuid type pl opts now)
  then show ?case by (simp add: sr_create)
next
  case (r_poll sc now clock)
  then show ?case by (simp add: poll_store_reachable)
next
  case (r_settle sc jobId out now)
  then show ?case by (simp add: settle_store_reachable)
qed (simp_all add: start_def pause_def resume_def stop_def)

section \<open>Invariants of the store\<close>

lemma store_reachable_attempts:
  assumes "store_reachable e s"
  shows "\<forall>i j. getJob s i = Some j \<longrightarrow> attempts_ok j"
  using assms
proof (induction rule: store_reachable.induct)
  case (sr_new maxSize)
  show ?case by (simp add: JobStore_new_def getJob_def)
next
  case (sr_create s uuid type pl opts now)
  show ?case
  proof (cases "int (length (jobs s)) < maxQueueSize s")
    case True
    from createJob_ok[OF True, of e type pl opts uuid now]
    obtain j where j: "getJob (fst (qm_createJob e s type pl opts uuid now)) = (getJob s)(uuid \<mapsto> j)"
      "status j = PENDING" "attempts j = 0" by blast
    have "attempts_ok j"
      using j by (simp add: attempts_ok_def)
    then show ?thesis using sr_create.IH by (auto simp: j(1))
  next
    case False
    then show ?thesis using sr_create.IH by (simp add: createJob_full)
  qed
next
  case (sr_start s i j now)
  have ne: "status j \<noteq> RUNNING" using sr_start.hyps(3) by auto
  let ?j' = "j\<lparr>status := RUNNING, startedAt := Some now, attempts := Suc (attempts j)\<rparr>"
  have ok: "attempts_ok j"
    using sr_start.IH sr_start.hyps(2) by blast
  have "attempts_ok ?j'"
    using ok sr_start.hyps(3) by (auto simp: attempts_ok_def)
  then show ?case
    using sr_start.IH by (auto simp: startJob_Some(2)[OF sr_start.hyps(2) ne])
next
  case (sr_complete s i now)
  show ?case
  proof (cases "getJob s i")
    case None
    then show ?thesis using sr_complete.IH by (simp add: completeJob_None)
  next
    case (Some j)
    have ok: "attempts_ok j"
      using sr_complete.IH Some by blast
    have "attempts_ok (j\<lparr>status := COMPLETED, finishedAt := Some now\<rparr>)"
      using ok by (auto simp: attempts_ok_def)
    then show ?thesis
      using sr_complete.IH by (auto simp: completeJob_Some(2)[OF Some])
  qed
next
  case (sr_fail s i msg now)
  show ?case
  proof (cases "getJob s i")
    case None
    then show ?thesis using sr_fail.IH by (simp add: failJob_None)
  next
    case (Some j)
    have ok: "attempts_ok j"
      using sr_fail.IH Some by blast
    show ?thesis
    proof (cases "int (attempts j) < maxAttempts j")
      case True
      have "attempts_ok (j\<lparr>status := RETRYING, error := Some msg,
                   retryAt := Some (now + RETRY_BACKOFF_BASE_MS e * 2 ^ attempts j)\<rparr>)"
        using ok True by (simp add: attempts_ok_def)
      then show ?thesis
        using sr_fail.IH by (auto simp: failJob_retry(2)[OF Some True])
    next
      case False
      have "attempts_ok (j\<lparr>status := DEAD, finishedAt := Some now, error := Some msg\<rparr>)"
        using ok False by (auto simp: attempts_ok_def)
      then show ?thesis
        using sr_fail.IH by (auto simp: failJob_dead(2)[OF Some False])
    qed
  qed
qed

lemma frame_markJobFailed:
  "maxQueueSize (fst (markJobFailed s i msg now)) = maxQueueSize s"
  "length (jobs (fst (markJobFailed s i msg now))) = length (jobs s)"
  by (simp_all add: markJobFailed_def updateJobStatus_frame split: option.splits)

lemma frame_failJob:
  "maxQueueSize (fst (failJob e s i msg now)) = maxQueueSize s"
  "length (jobs (fst (failJob e s i msg now))) = length (jobs s)"
proof -
  obtain s1 r where m: "markJobFailed s i msg now = (s1, r)" by (cases "markJobFailed s i msg now")
  have s1: "maxQueueSize s1 = maxQueueSize s" "length (jobs s1) = length (jobs s)"
    using frame_markJobFailed[of s i msg now] m by simp_all
  show "maxQueueSize (fst (failJob e s i msg now)) = maxQueueSize s"
    using s1 m by (simp add: failJob_def Let_def markJobRetrying_def updateJobStatus_frame
        split: option.splits sum.splits)
  show "length (jobs (fst (failJob e s i msg now))) = length (jobs s)"
    using s1 m by (simp add: failJob_def Let_def markJobRetrying_def updateJobStatus_frame
        split: option.splits sum.splits)
qed

lemma frame_startJob:
  "maxQueueSize (fst (startJob s i now)) = maxQueueSize s"
  "length (jobs (fst (startJob s i now))) = length (jobs s)"
  by (simp_all add: startJob_def markJobStarted_def updateJobStatus_frame split: option.splits)

lemma frame_completeJob:
  "maxQueueSize (fst (completeJob s i now)) = maxQueueSize s"
  "length (jobs (fst (completeJob s i now))) = length (jobs s)"
  by (simp_all add: completeJob_def markJobCompleted_def updateJobStatus_frame)

lemma frame_createJob:
  "maxQueueSize (fst (qm_createJob e s type pl opts uuid now)) = maxQueueSize s"
  by (simp add: qm_createJob_def createJob_def Let_def)

lemma store_reachable_capacity:
  assumes "store_reachable e s"
  shows "0 \<le> maxQueueSize s \<longrightarrow> int (length (jobs s)) \<le> maxQueueSize s"
  using assms
proof (induction rule: store_reachable.induct)
  case (sr_new maxSize)
  show ?case by (simp add: JobStore_new_def)
next
  case (sr_create s uuid type pl opts now)
  show ?case
  proof (cases "int (length (jobs s)) < maxQueueSize s")
    case True
    then show ?thesis
      using createJob_length[OF True, of e type pl opts uuid now]
      by (simp add: frame_createJob)
  next
    case False
    then show ?thesis using sr_create.IH by (simp add: createJob_full)
  qed
qed (simp_all add: frame_startJob frame_completeJob frame_failJob)

lemma reachable_capacity:
  "reachable e sc \<Longrightarrow> 0 \<le> maxQueueSize (queue sc) \<Longrightarrow>
     int (length (jobs (queue sc))) \<le> maxQueueSize (queue sc)"
  using store_reachable_capacity[OF reachable_store] by blast

section \<open>The in-flight set\<close>

lemma dispatchJob_inflight:
  assumes "distinct (suspended sc)" "distinct (activeExecutions sc)"
    "set (suspended sc) = set (activeExecutions sc)"
    and new: "job_id j \<notin> set (activeExecutions sc)"
  shows "distinct (suspended (dispatchJob e sc j t)) \<and>
         distinct (activeExecutions (dispatchJob e sc j t)) \<and>
         set (suspended (dispatchJob e sc j t)) = set (activeExecutions (dispatchJob e sc j t))"
proof -
  obtain q r where st: "startJob (queue sc) (job_id j) t = (q, r)"
    by (cases "startJob (queue sc) (job_id j) t")
  show ?thesis
  proof (cases r)
    case (Inr x)
    then show ?thesis using assms st
      by (simp add: dispatchJob_def Let_def set_add_def)
  next
    case (Inl x)
    then show ?thesis using assms st
      by (simp add: dispatchJob_def Let_def set_add_def set_delete_def)
  qed
qed

lemma dispatch_all_inflight:
  assumes "distinct (suspended sc)" "distinct (activeExecutions sc)"
    "set (suspended sc) = set (activeExecutions sc)"
  shows "distinct (suspended (dispatch_all e sc js clock)) \<and>
         distinct (activeExecutions (dispatch_all e sc js clock)) \<and>
         set (suspended (dispatch_all e sc js clock)) = set (activeExecutions (dispatch_all e sc js clock))"
  using assms
proof (induction js arbitrary: sc)
  case Nil
  then show ?case by simp
next
  case (Cons j js)
  show ?case
  proof (cases "job_id j \<in> set (activeExecutions sc)")
    case True
    then show ?thesis using Cons.IH[OF Cons.prems] by simp
  next
    case False
    from dispatchJob_inflight[OF Cons.prems False, of e "clock (job_id j)"]
    have "distinct (suspended (dispatchJob e sc j (clock (job_id j))))"
      "distinct (activeExecutions (dispatchJob e sc j (clock (job_id j))))"
      "set (suspended (dispatchJob e sc j (clock (job_id j)))) =
         set (activeExecutions (dispatchJob e sc j (clock (job_id j))))"
      by simp_all
    from Cons.IH[OF this] show ?thesis using False by simp
  qed
qed

lemma settle_inflight:
  assumes "distinct (suspended sc)" "distinct (activeExecutions sc)"
    "set (suspended sc) = set (activeExecutions sc)"
  shows "distinct (suspended (dispatchJob_settle e sc i out now)) \<and>
         distinct (activeExecutions (dispatchJob_settle e sc i out now)) \<and>
         set (suspended (dispatchJob_settle e sc i out now)) =
           set (activeExecutions (dispatchJob_settle e sc i out now))"
  using assms by (simp add: dispatchJob_settle_def Let_def)

lemma reachable_inflight:
  assumes "reachable e sc"
  shows "distinct (suspended sc) \<and> distinct (activeExecutions sc) \<and>
         set (suspended sc) = set (activeExecutions sc)"
  using assms
proof (induction rule: reachable.induct)
  case (r_init maxSize)
  show ?case by (simp add: Scheduler_new_def)
next
  case (r_poll sc now clock)
  then show ?case using dispatch_all_inflight[of sc] by (simp add: poll_def)
next
  case (r_settle sc jobId out now)
  then show ?case using settle_inflight[of sc] by simp
qed (simp_all add: start_def pause_def resume_def stop_def)

lemma ex_sched0_eval:
  "isRunning ex_sched0 \<and> \<not> isPaused ex_sched0 \<and> activeExecutions ex_sched0 = [] \<and>
   suspended ex_sched0 = [] \<and>
   getJobsReadyForExecution (queue ex_sched0) 2 =
     [\<lparr>job_id = ''d'', job_type = ''SEND_EMAIL'', payload = ''mail'', status = PENDING,
       attempts = 0, maxAttempts = 1, createdAt = 1,
       startedAt = None, finishedAt = None, error = None, retryAt = None\<rparr>]"
  by (simp add: ex_sched0_def start_def Scheduler_new_def ex_env_def
      qm_createJob_def createJob_def JobStore_new_def Let_def maxAttempts_of_def
      getJobsReadyForExecution_def getJobsByStatus_def set_add_def)

lemma ex_sched1_eval:
  "suspended ex_sched1 = [''d''] \<and> activeExecutions ex_sched1 = [''d''] \<and>
   getJob (queue ex_sched1) ''d'' =
     Some \<lparr>job_id = ''d'', job_type = ''SEND_EMAIL'', payload = ''mail'', status = RUNNING,
       attempts = 1, maxAttempts = 1, createdAt = 1,
       startedAt = Some 2, finishedAt = None, error = None, retryAt = None\<rparr>"
proof -
  have g: "getJob (queue ex_sched0) ''d'' = Some \<lparr>job_id = ''d'', job_type = ''SEND_EMAIL'', payload = ''mail'', status = PENDING,
       attempts = 0, maxAttempts = 1, createdAt = 1,
       startedAt = None, finishedAt = None, error = None, retryAt = None\<rparr>"
    by (simp add: ex_sched0_def start_def Scheduler_new_def ex_env_def
      qm_createJob_def createJob_def JobStore_new_def Let_def maxAttempts_of_def getJob_def)
  obtain q r where st: "startJob (queue ex_sched0) ''d'' 2 = (q, r)"
    by (cases "startJob (queue ex_sched0) ''d'' 2")
  have r: "r = Inr \<lparr>job_id = ''d'', job_type = ''SEND_EMAIL'', payload = ''mail'', status = RUNNING,
       attempts = 1, maxAttempts = 1, createdAt = 1,
       startedAt = Some 2, finishedAt = None, error = None, retryAt = None\<rparr>"
    using startJob_Some(1)[OF g, of 2] st by simp
  have q: "getJob q ''d'' = Some \<lparr>job_id = ''d'', job_type = ''SEND_EMAIL'', payload = ''mail'', status = RUNNING,
       attempts = 1, maxAttempts = 1, createdAt = 1,
       startedAt = Some 2, finishedAt = None, error = None, retryAt = None\<rparr>"
    using startJob_Some(2)[OF g, of 2] st by simp
  show ?thesis
    using ex_sched0_eval st r q
    by (simp add: ex_sched1_def poll_def qm_getJobsReadyForExecution_def dispatchJob_def Let_def set_add_def)
qed

lemma ex_sched2_eval:
  "suspended ex_sched2 = [] \<and> activeExecutions ex_sched2 = [] \<and>
   getJob (queue ex_sched2) ''d'' =
     Some \<lparr>job_id = ''d'', job_type = ''SEND_EMAIL'', payload = ''mail'', status = DEAD,
       attempts = 1, maxAttempts = 1, createdAt = 1,
       startedAt = Some 2, finishedAt = Some 3, error = Some ''boom'', retryAt = None\<rparr>"
proof -
  have g: "getJob (queue ex_sched1) ''d'' =
     Some \<lparr>job_id = ''d'', job_type = ''SEND_EMAIL'', payload = ''mail'', status = RUNNING,
       attempts = 1, maxAttempts = 1, createdAt = 1,
       startedAt = Some 2, finishedAt = None, error = None, retryAt = None\<rparr>"
    using ex_sched1_eval by simp
  show ?thesis
    using ex_sched1_eval failJob_dead(2)[OF g, of ex_env "''boom''" 3]
    by (simp add: ex_sched2_def dispatchJob_settle_def Let_def set_delete_def)
qed

lemma ex_sched_reachable: "reachable ex_env ex_sched1" "reachable ex_env ex_sched2"
proof -
  have "reachable ex_env ex_sched0"
    unfolding ex_sched0_def
    by (intro r_start r_submit r_init) (simp add: Scheduler_new_def JobStore_new_def)
  then show 1: "reachable ex_env ex_sched1"
    unfolding ex_sched1_def by (rule r_poll)
  show "reachable ex_env ex_sched2"
    unfolding ex_sched2_def using ex_sched1_eval by (intro r_settle[OF 1]) simp
qed

section \<open>Order of the PENDING set\<close>

lemma update_absent:
  "k \<notin> fst ` set al \<Longrightarrow> AList.update k v al = al @ [(k, v)]"
  by (induction al) auto

lemma filter_update_drop:
  "distinct (map fst al) \<Longrightarrow> \<not> P (k, v) \<Longrightarrow>
     map fst (filter P (AList.update k v al)) = removeAll k (map fst (filter P al))"
proof (induction al)
  case Nil
  then show ?case by simp
next
  case (Cons a al)
  obtain k' v' where a: "a = (k', v')" by (cases a)
  show ?case
  proof (cases "k' = k")
    case True
    have "k \<notin> set (map fst (filter P al))"
      using Cons.prems(1) a True by (auto simp: image_iff)
    then have "removeAll k (map fst (filter P al)) = map fst (filter P al)"
      by (simp add: removeAll_id)
    then show ?thesis using Cons.prems(2) a True by simp
  next
    case False
    then show ?thesis using Cons a by simp
  qed
qed

lemma pending_order_update:
  assumes inv: "store_inv s" and po: "pending_in_creation_order s"
    and u: "\<And>x. status (u x) = status x"
    and st: "st \<noteq> PENDING"
  shows "pending_in_creation_order (fst (updateJobStatus s i st u))"
proof (cases "getJob s i")
  case None
  then show ?thesis using po by (simp add: updateJobStatus_None)
next
  case (Some j)
  let ?j' = "u (j\<lparr>status := st\<rparr>)"
  let ?P = "\<lambda>(i, j). status j = PENDING"
  have np: "\<not> ?P (i, ?j')" using u st by simp
  have d: "distinct (map fst (jobs s))" using inv by (simp add: store_inv_def)
  have mem: "i \<in> set (jobsByStatus s PENDING) \<longleftrightarrow> status j = PENDING"
    using inv Some by (simp add: store_inv_def)
  have idx: "jobsByStatus (fst (updateJobStatus s i st u)) PENDING = removeAll i (jobsByStatus s PENDING)"
    using Some st mem
    by (auto simp: updateJobStatus_def getJob_def Let_def set_delete_def removeAll_id)
  have jb: "jobs (fst (updateJobStatus s i st u)) = AList.update i ?j' (jobs s)"
    using Some by (simp add: updateJobStatus_def getJob_def Let_def)
  show ?thesis
    unfolding pending_in_creation_order_def idx jb
    using po filter_update_drop[of "jobs s" ?P i ?j', OF d np]
    by (simp add: pending_in_creation_order_def)
qed

lemma pending_order_createJob:
  assumes inv: "store_inv s" and po: "pending_in_creation_order s"
    and fresh: "uuid \<notin> fst ` set (jobs s)"
  shows "pending_in_creation_order (fst (qm_createJob e s type pl opts uuid now))"
proof (cases "int (length (jobs s)) < maxQueueSize s")
  case False
  then show ?thesis using po by (simp add: createJob_full)
next
  case True
  have none: "getJob s uuid = None"
    using fresh by (simp add: getJob_def map_of_eq_None_iff)
  have nm: "uuid \<notin> set (jobsByStatus s PENDING)"
    using inv none by (simp add: store_inv_def)
  show ?thesis
    using True po nm
    by (simp add: pending_in_creation_order_def qm_createJob_def createJob_def Let_def
        update_absent[OF fresh] set_add_def)
qed

lemma pending_order_startJob:
  "store_inv s \<Longrightarrow> pending_in_creation_order s \<Longrightarrow>
     pending_in_creation_order (fst (startJob s i now))"
  by (auto simp: startJob_def markJobStarted_def pending_order_update split: option.splits)

lemma pending_order_completeJob:
  "store_inv s \<Longrightarrow> pending_in_creation_order s \<Longrightarrow>
     pending_in_creation_order (fst (completeJob s i now))"
  by (simp add: completeJob_def markJobCompleted_def pending_order_update)

lemma pending_order_markJobFailed:
  "store_inv s \<Longrightarrow> pending_in_creation_order s \<Longrightarrow>
     pending_in_creation_order (fst (markJobFailed s i msg now))"
  by (auto simp: markJobFailed_def pending_order_update split: option.splits)

lemma pending_order_failJob:
  assumes "store_inv s" and "pending_in_creation_order s"
  shows "pending_in_creation_order (fst (failJob e s i msg now))"
proof -
  have a: "store_inv (fst (markJobFailed s i msg now))"
    by (rule store_inv_markJobFailed[OF assms(1)])
  have b: "pending_in_creation_order (fst (markJobFailed s i msg now))"
    by (rule pending_order_markJobFailed[OF assms])
  have c: "pending_in_creation_order (fst (markJobRetrying (fst (markJobFailed s i msg now)) i t))" for t
    using a b by (simp add: markJobRetrying_def pending_order_update)
  show ?thesis
    using assms(2) b c
    by (cases "markJobFailed s i msg now")
       (auto simp: failJob_def Let_def split: option.splits sum.splits)
qed

lemma store_reachable_pending_order:
  "store_reachable e s \<Longrightarrow> pending_in_creation_order s"
proof (induction rule: store_reachable.induct)
  case (sr_new maxSize)
  show ?case by (simp add: pending_in_creation_order_def JobStore_new_def)
next
  case (sr_create s uuid type pl opts now)
  then show ?case by (simp add: pending_order_createJob store_reachable_inv)
next
  case (sr_start s i j now)
  then show ?case by (simp add: pending_order_startJob store_reachable_inv)
next
  case (sr_complete s i now)
  then show ?case by (simp add: pending_order_completeJob store_reachable_inv)
next
  case (sr_fail s i msg now)
  then show ?case by (simp add: pending_order_failJob store_reachable_inv)
qed

lemma map_filter_map_of_keys:
  "distinct (map fst al) \<Longrightarrow> set ys \<subseteq> set al \<Longrightarrow>
     List.map_filter (map_of al) (map fst ys) = map snd ys"
  by (induction ys) auto

lemma pending_jobs_in_creation_order:
  assumes "store_inv s" and "pending_in_creation_order s"
  shows "getJobsByStatus s PENDING = filter (\<lambda>j. status j = PENDING) (map snd (jobs s))"
proof -
  let ?P = "\<lambda>(i, j). status j = PENDING"
  have d: "distinct (map fst (jobs s))" using assms(1) by (simp add: store_inv_def)
  have "getJobsByStatus s PENDING = List.map_filter (map_of (jobs s)) (map fst (filter ?P (jobs s)))"
    using assms(2) by (simp add: getJobsByStatus_def pending_in_creation_order_def)
  also have "\<dots> = map snd (filter ?P (jobs s))"
    by (rule map_filter_map_of_keys[OF d]) simp
  also have "\<dots> = filter (\<lambda>j. status j = PENDING) (map snd (jobs s))"
    by (simp add: filter_map comp_def case_prod_unfold)
  finally show ?thesis .
qed

section \<open>Retry delay\<close>

text \<open>
  C1 (as stated: the delay after \<open>n\<close> attempts is \<open>base * 2^(n-1)\<close>). It fails on the
  code: job \<open>a\<close> has made one attempt out of three; with base 1000 its failure at time
  5000 schedules the retry at 7000, a delay of \<open>1000 * 2^1\<close>, not at
  \<open>5000 + 1000 * 2^(1-1) = 6000\<close>.
\<close>

theorem failJob_delay_counterexample:
  "map_option attempts (getJob ex_running ''a'') = Some 1 \<and>
   map_option maxAttempts (getJob ex_running ''a'') = Some 3 \<and>
   map_option retryAt (getJob (fst (failJob ex_env ex_running ''a'' ''boom'' 5000)) ''a'')
     = Some (Some 7000) \<and>
   map_option retryAt (getJob (fst (failJob ex_env ex_running ''a'' ''boom'' 5000)) ''a'')
     \<noteq> Some (Some (5000 + RETRY_BACKOFF_BASE_MS ex_env * 2 ^ (1 - 1)))"
  by (simp add: ex_running_job failJob_retry(2)[OF ex_running_job] ex_env_def)

text \<open>
  C1 (amended): for a job in the store whose failure is reported after \<open>n\<close> attempts
  with \<open>n < maxAttempts\<close>, \<open>failJob\<close> computes the delay \<open>base * 2^n\<close>, as the comment of
  \<^verbatim>\<open>calculateRetryDelay\<close> says, and stores \<open>retryAt = now + base * 2^n\<close> in the job.
\<close>

theorem failJob_delay:
  assumes "getJob s i = Some j" and "int (attempts j) < maxAttempts j"
  shows "\<exists>j'. snd (failJob e s i msg now) = Inr j' \<and>
           getJob (fst (failJob e s i msg now)) i = Some j' \<and>
           retryAt j' = Some (now + calculateRetryDelay e (attempts j)) \<and>
           calculateRetryDelay e (attempts j) = RETRY_BACKOFF_BASE_MS e * 2 ^ attempts j"
  using failJob_retry(1,2)[OF assms, of e msg now]
  by (simp add: calculateRetryDelay_def)

theorem failJob_delay_witness:
  "\<exists>j'. snd (failJob ex_env ex_running ''a'' ''boom'' 5000) = Inr j' \<and>
        getJob (fst (failJob ex_env ex_running ''a'' ''boom'' 5000)) ''a'' = Some j' \<and>
        retryAt j' = Some 7000"
  using failJob_delay[OF ex_running_job, of ex_env "''boom''" 5000]
  by (simp add: calculateRetryDelay_def ex_env_def)

section \<open>Failure: retry or death\<close>

text \<open>
  C2: \<open>failJob\<close> on a job of the store ends in exactly one of two states. When
  \<open>attempts < maxAttempts\<close> at the call, the job ends RETRYING with \<open>retryAt\<close> set, and
  the \<open>markJobFailed\<close> step on the way leaves it FAILED, not DEAD; otherwise it ends
  DEAD. So RETRYING holds if and only if \<open>attempts < maxAttempts\<close>, DEAD if and only
  if not, and no third state is possible.
\<close>

theorem failJob_retry_or_dead:
  assumes "getJob s i = Some j"
  shows "\<exists>j'. snd (failJob e s i msg now) = Inr j' \<and>
           getJob (fst (failJob e s i msg now)) i = Some j' \<and>
           (status j' = RETRYING \<or> status j' = DEAD) \<and>
           (status j' = RETRYING \<longleftrightarrow> int (attempts j) < maxAttempts j) \<and>
           (status j' = DEAD \<longleftrightarrow> \<not> int (attempts j) < maxAttempts j) \<and>
           (int (attempts j) < maxAttempts j \<longrightarrow>
              retryAt j' \<noteq> None \<and>
              (\<exists>f. snd (markJobFailed s i msg now) = Inr f \<and> status f = FAILED))"
proof (cases "int (attempts j) < maxAttempts j")
  case True
  show ?thesis
    using failJob_retry(1,2)[OF assms True, of e msg now] failJob_retry(3)[OF assms True, of msg now] True
    by simp
next
  case False
  show ?thesis
    using failJob_dead[OF assms False, of e msg now] False by simp
qed

theorem failJob_retry_or_dead_witness:
  "\<exists>j'. snd (failJob ex_env ex_running ''a'' ''boom'' 5000) = Inr j' \<and>
        status j' = RETRYING \<and> retryAt j' \<noteq> None \<and>
        (\<exists>f. snd (markJobFailed ex_running ''a'' ''boom'' 5000) = Inr f \<and> status f = FAILED)"
  using failJob_retry_or_dead[OF ex_running_job, of ex_env "''boom''" 5000]
  by auto

section \<open>Terminal states\<close>

text \<open>
  C3 (as stated: \<open>completeJob\<close> and \<open>failJob\<close> on a COMPLETED or DEAD job fail and
  leave it unchanged). It fails on the code: job \<open>d\<close> is DEAD, and \<open>completeJob\<close> on it
  returns normally and makes it COMPLETED.
\<close>

theorem completeJob_terminal_counterexample:
  "map_option status (getJob ex_dead ''d'') = Some DEAD \<and>
   \<not> isl (snd (completeJob ex_dead ''d'' 9)) \<and>
   map_option status (getJob (fst (completeJob ex_dead ''d'' 9)) ''d'') = Some COMPLETED"
  by (simp add: ex_dead_job completeJob_Some[OF ex_dead_job])

text \<open>
  C3 (amended): \<open>completeJob\<close> and \<open>failJob\<close> do not look at the status. On a job in a
  terminal state they make the transition as on any other job: \<open>completeJob\<close> moves it
  to COMPLETED and sets \<open>finishedAt\<close>, \<open>failJob\<close> moves it to RETRYING or DEAD by
  comparing \<open>attempts\<close> with \<open>maxAttempts\<close>. They fail, with the error "Job not found"
  and the store unchanged, only when the id is not in the store.
\<close>

theorem terminal_job_transitions:
  "(getJob s i = None \<longrightarrow>
      completeJob s i now = (s, Inl (NotFound i)) \<and>
      failJob e s i msg now = (s, Inl (NotFound i))) \<and>
   (\<forall>j. getJob s i = Some j \<and> (status j = COMPLETED \<or> status j = DEAD) \<longrightarrow>
      snd (completeJob s i now) = Inr (j\<lparr>status := COMPLETED, finishedAt := Some now\<rparr>) \<and>
      getJob (fst (completeJob s i now)) i = Some (j\<lparr>status := COMPLETED, finishedAt := Some now\<rparr>) \<and>
      (\<exists>j'. snd (failJob e s i msg now) = Inr j' \<and>
            getJob (fst (failJob e s i msg now)) i = Some j' \<and>
            status j' = (if int (attempts j) < maxAttempts j then RETRYING else DEAD)))"
proof (intro conjI impI allI)
  fix j assume h: "getJob s i = Some j \<and> (status j = COMPLETED \<or> status j = DEAD)"
  then have g: "getJob s i = Some j" by simp
  show "snd (completeJob s i now) = Inr (j\<lparr>status := COMPLETED, finishedAt := Some now\<rparr>)"
    by (rule completeJob_Some(1)[OF g])
  show "getJob (fst (completeJob s i now)) i = Some (j\<lparr>status := COMPLETED, finishedAt := Some now\<rparr>)"
    by (simp add: completeJob_Some(2)[OF g])
  show "\<exists>j'. snd (failJob e s i msg now) = Inr j' \<and>
            getJob (fst (failJob e s i msg now)) i = Some j' \<and>
            status j' = (if int (attempts j) < maxAttempts j then RETRYING else DEAD)"
    using failJob_retry(1,2)[OF g, of e msg now] failJob_dead[OF g, of e msg now]
    by (cases "int (attempts j) < maxAttempts j") simp_all
qed (simp_all add: completeJob_None failJob_None)

theorem terminal_job_transitions_witness:
  "getJob ex_dead ''d'' \<noteq> None \<and>
   map_option status (getJob ex_dead ''d'') = Some DEAD \<and>
   \<not> isl (snd (completeJob ex_dead ''d'' 9)) \<and>
   (\<exists>j'. snd (failJob ex_env ex_dead ''d'' ''again'' 9) = Inr j' \<and> status j' = DEAD) \<and>
   getJob ex_dead ''x'' = None \<and>
   completeJob ex_dead ''x'' 9 = (ex_dead, Inl (NotFound ''x''))"
proof -
  have n: "getJob ex_dead ''x'' = None"
    by (simp add: ex_dead_def qm_createJob_def createJob_def JobStore_new_def Let_def
          startJob_def isJobRunning_def markJobStarted_def failJob_def markJobFailed_def
          maxAttempts_of_def updateJobStatus_def getJob_def update_conv')
  show ?thesis
    using terminal_job_transitions[of ex_dead "''d''" 9 ex_env "''again''"]
          terminal_job_transitions[of ex_dead "''x''" 9 ex_env "''again''"] n
    by (auto simp add: ex_dead_job)
qed

section \<open>Start of a job\<close>

text \<open>
  C9 (as stated: a retry keeps the \<open>startedAt\<close> of the first start). It fails on the
  code: job \<open>a\<close> was first started at time 2 and waits for its retry; \<open>startJob\<close> at
  time 8000 replaces \<open>startedAt = 2\<close> by 8000.
\<close>

theorem startJob_startedAt_counterexample:
  "map_option status (getJob ex_retrying ''a'') = Some RETRYING \<and>
   map_option startedAt (getJob ex_retrying ''a'') = Some (Some 2) \<and>
   map_option startedAt (getJob (fst (startJob ex_retrying ''a'' 8000)) ''a'') = Some (Some 8000)"
  by (simp add: ex_retrying_job startJob_Some(2)[OF ex_retrying_job])

text \<open>
  C9 (amended): \<open>startJob\<close> sets \<open>startedAt\<close> to the current time on every transition
  to RUNNING, the first one and every retry alike; the time of an earlier start is
  overwritten.
\<close>

theorem startJob_sets_startedAt:
  assumes "getJob s i = Some j" and "status j \<noteq> RUNNING"
  shows "\<exists>j'. snd (startJob s i now) = Inr j' \<and>
           getJob (fst (startJob s i now)) i = Some j' \<and>
           status j' = RUNNING \<and> startedAt j' = Some now \<and>
           attempts j' = attempts j + 1"
  using startJob_Some[OF assms, of now] by simp

theorem startJob_sets_startedAt_witness:
  "\<exists>j'. snd (startJob ex_retrying ''a'' 8000) = Inr j' \<and>
        status j' = RUNNING \<and> startedAt j' = Some 8000 \<and> attempts j' = 2"
  using startJob_sets_startedAt[OF ex_retrying_job, of 8000] by auto

text \<open>
  C10: for an id that is not in the store, \<open>startJob\<close> does not end in the store's
  "Job not found" error. The \<open>isJobRunning\<close> guard lets the call through,
  \<open>markJobStarted\<close> throws the type error of reading \<open>attempts\<close> from \<open>null\<close>, and the
  store is unchanged; \<open>updateJobStatus\<close>, which would have answered "not found", is
  never entered.
\<close>

theorem startJob_unknown_id:
  assumes "getJob s i = None"
  shows "\<not> isJobRunning s i \<and>
         markJobStarted s i now = (s, Inl TypeError) \<and>
         startJob s i now = (s, Inl TypeError) \<and>
         snd (startJob s i now) \<noteq> Inl (NotFound i) \<and>
         updateJobStatus s i RUNNING u = (s, Inl (NotFound i))"
  using assms
  by (simp add: startJob_def isJobRunning_def markJobStarted_def updateJobStatus_None)

theorem startJob_unknown_id_witness:
  "startJob (JobStore_new 2) ''x'' 5 = (JobStore_new 2, Inl TypeError)"
proof -
  have "getJob (JobStore_new 2) ''x'' = None"
    by (simp add: getJob_def JobStore_new_def)
  from startJob_unknown_id[OF this] show ?thesis by simp
qed

section \<open>Capacity\<close>

text \<open>
  C6: in a store that holds at most \<open>MAX_QUEUE_SIZE\<close> jobs (every store the system
  reaches, see \<open>reachable_capacity\<close>), \<open>createJob\<close> fails with the queue-full error
  if and only if the number of jobs equals \<open>MAX_QUEUE_SIZE\<close>. On that failure the
  store, and with it the job count, is unchanged. Otherwise the call succeeds: it
  returns the new PENDING job, which is then in the store under its id.
\<close>

theorem createJob_queue_full:
  assumes "int (length (jobs s)) \<le> maxQueueSize s"
  shows "(snd (qm_createJob e s type pl opts uuid now) = Inl QueueFull
            \<longleftrightarrow> int (length (jobs s)) = maxQueueSize s) \<and>
         (int (length (jobs s)) = maxQueueSize s \<longrightarrow>
            fst (qm_createJob e s type pl opts uuid now) = s \<and>
            length (jobs (fst (qm_createJob e s type pl opts uuid now))) = length (jobs s)) \<and>
         (int (length (jobs s)) \<noteq> maxQueueSize s \<longrightarrow>
            (\<exists>j. snd (qm_createJob e s type pl opts uuid now) = Inr j \<and>
                 getJob (fst (qm_createJob e s type pl opts uuid now)) uuid = Some j \<and>
                 job_id j = uuid \<and> status j = PENDING \<and> attempts j = 0) \<and>
            (uuid \<notin> fst ` set (jobs s) \<longrightarrow>
               length (jobs (fst (qm_createJob e s type pl opts uuid now))) = Suc (length (jobs s))))"
proof (cases "int (length (jobs s)) = maxQueueSize s")
  case True
  then show ?thesis by (simp add: createJob_full)
next
  case False
  with assms have lt: "int (length (jobs s)) < maxQueueSize s" by simp
  from createJob_ok[OF lt, of e type pl opts uuid now]
  obtain j where j: "snd (qm_createJob e s type pl opts uuid now) = Inr j"
    "getJob (fst (qm_createJob e s type pl opts uuid now)) = (getJob s)(uuid \<mapsto> j)"
    "job_id j = uuid" "status j = PENDING" "attempts j = 0"
    by blast
  show ?thesis
    using False j createJob_length[OF lt, of e type pl opts uuid now] by simp
qed

theorem createJob_queue_full_witness:
  "snd (qm_createJob ex_env (JobStore_new 1) ''SEND_EMAIL'' ''mail'' no_options ''a'' 1)
      \<noteq> Inl QueueFull \<and>
   qm_createJob ex_env
      (fst (qm_createJob ex_env (JobStore_new 1) ''SEND_EMAIL'' ''mail'' no_options ''a'' 1))
      ''SEND_EMAIL'' ''mail'' no_options ''b'' 2
    = (fst (qm_createJob ex_env (JobStore_new 1) ''SEND_EMAIL'' ''mail'' no_options ''a'' 1),
       Inl QueueFull)"
proof -
  let ?s0 = "JobStore_new 1"
  let ?s1 = "fst (qm_createJob ex_env ?s0 ''SEND_EMAIL'' ''mail'' no_options ''a'' 1)"
  have l0: "int (length (jobs ?s0)) \<le> maxQueueSize ?s0" and n0: "int (length (jobs ?s0)) \<noteq> maxQueueSize ?s0"
    by (simp_all add: JobStore_new_def)
  have l1: "int (length (jobs ?s1)) = maxQueueSize ?s1"
    by (simp add: JobStore_new_def qm_createJob_def createJob_def Let_def)
  then have l1': "int (length (jobs ?s1)) \<le> maxQueueSize ?s1" by simp
  have a: "snd (qm_createJob ex_env ?s0 ''SEND_EMAIL'' ''mail'' no_options ''a'' 1) \<noteq> Inl QueueFull"
    using createJob_queue_full[OF l0, of ex_env "''SEND_EMAIL''" "''mail''" no_options "''a''" 1] n0
    by simp
  have b: "snd (qm_createJob ex_env ?s1 ''SEND_EMAIL'' ''mail'' no_options ''b'' 2) = Inl QueueFull"
          "fst (qm_createJob ex_env ?s1 ''SEND_EMAIL'' ''mail'' no_options ''b'' 2) = ?s1"
    using createJob_queue_full[OF l1', of ex_env "''SEND_EMAIL''" "''mail''" no_options "''b''" 2] l1
    by simp_all
  show ?thesis using a b by (simp add: prod_eq_iff)
qed

section \<open>Jobs ready for execution\<close>

lemma failJob_retryAt_positive:
  assumes "getJob s i = Some j" and "int (attempts j) < maxAttempts j"
    and "0 < now" and "0 \<le> RETRY_BACKOFF_BASE_MS e"
  shows "\<exists>j' t. getJob (fst (failJob e s i msg now)) i = Some j' \<and> retryAt j' = Some t \<and> 0 < t"
proof -
  have "0 \<le> RETRY_BACKOFF_BASE_MS e * 2 ^ attempts j"
    using assms(4) by simp
  then show ?thesis
    using failJob_retry(2)[OF assms(1,2), of e msg now] assms(3) by simp
qed

text \<open>
  C7: in a well-formed store, \<open>getJobsReadyForExecution\<close> returns exactly the PENDING
  jobs together with the RETRYING jobs whose \<open>retryAt\<close> is at most \<open>now\<close>, each
  once. It returns no job that is RUNNING, COMPLETED, DEAD or FAILED, and no RETRYING
  job whose \<open>retryAt\<close> lies ahead. The code tests \<^verbatim>\<open>job.retryAt && job.retryAt <= now\<close>,
  so the timestamp must not be the falsy number 0; \<open>failJob\<close> stores \<open>now + delay\<close>,
  which is positive for every clock reading of a real run (\<open>failJob_retryAt_positive\<close>).
\<close>

theorem ready_jobs_exact:
  assumes "store_inv s"
    and "\<forall>i j. getJob s i = Some j \<and> status j = RETRYING \<longrightarrow> retryAt j \<noteq> Some 0"
  shows "set (getJobsReadyForExecution s now) =
           {j. (\<exists>i. getJob s i = Some j) \<and>
               (status j = PENDING \<or>
                status j = RETRYING \<and> (\<exists>t. retryAt j = Some t \<and> t \<le> now))} \<and>
         distinct (getJobsReadyForExecution s now) \<and>
         (\<forall>j \<in> set (getJobsReadyForExecution s now).
            status j \<noteq> RUNNING \<and> status j \<noteq> COMPLETED \<and> status j \<noteq> DEAD \<and>
            status j \<noteq> FAILED \<and>
            (status j = RETRYING \<longrightarrow> (\<exists>t. retryAt j = Some t \<and> t \<le> now)))"
proof -
  have el: "\<And>j. (\<exists>i. getJob s i = Some j) \<Longrightarrow> status j = RETRYING \<Longrightarrow>
              retry_elapsed now j \<longleftrightarrow> (\<exists>t. retryAt j = Some t \<and> t \<le> now)"
    using assms(2) by (auto simp: retry_elapsed_def split: option.splits)
  have eq: "set (getJobsReadyForExecution s now) =
           {j. (\<exists>i. getJob s i = Some j) \<and>
               (status j = PENDING \<or>
                status j = RETRYING \<and> (\<exists>t. retryAt j = Some t \<and> t \<le> now))}"
    using el by (auto simp: getJobsReadyForExecution_def getJobsByStatus_set[OF assms(1)])
  have d: "distinct (getJobsReadyForExecution s now)"
    using ready_distinct[OF assms(1), of now] by (simp add: distinct_map)
  show ?thesis
    using d by (simp add: eq) auto
qed

theorem ready_jobs_exact_witness:
  "map_option status (getJob ex_retrying ''a'') = Some RETRYING \<and>
   map_option retryAt (getJob ex_retrying ''a'') = Some (Some 7000) \<and>
   getJobsReadyForExecution ex_retrying 6999 = [] \<and>
   the (getJob ex_retrying ''a'') \<in> set (getJobsReadyForExecution ex_retrying 7000)"
proof -
  let ?a = "\<lparr>job_id = ''a'', job_type = ''SEND_EMAIL'', payload = ''mail'', status = RETRYING,
                 attempts = 1, maxAttempts = 3, createdAt = 1,
                 startedAt = Some 2, finishedAt = None, error = Some ''boom'', retryAt = Some 7000\<rparr>"
  have only: "\<And>i j. getJob ex_retrying i = Some j \<Longrightarrow> j = ?a"
    using ex_retrying_only ex_retrying_job by fastforce
  have nz: "\<forall>i j. getJob ex_retrying i = Some j \<and> status j = RETRYING \<longrightarrow> retryAt j \<noteq> Some 0"
    using only by fastforce
  have s1: "set (getJobsReadyForExecution ex_retrying 6999) =
           {j. (\<exists>i. getJob ex_retrying i = Some j) \<and>
               (status j = PENDING \<or>
                status j = RETRYING \<and> (\<exists>t. retryAt j = Some t \<and> t \<le> 6999))}"
    using ready_jobs_exact[OF store_inv_ex_retrying nz, of 6999] by (rule conjunct1)
  have s2: "set (getJobsReadyForExecution ex_retrying 7000) =
           {j. (\<exists>i. getJob ex_retrying i = Some j) \<and>
               (status j = PENDING \<or>
                status j = RETRYING \<and> (\<exists>t. retryAt j = Some t \<and> t \<le> 7000))}"
    using ready_jobs_exact[OF store_inv_ex_retrying nz, of 7000] by (rule conjunct1)
  have "set (getJobsReadyForExecution ex_retrying 6999) = {}"
    unfolding s1 using only by fastforce
  then have a: "getJobsReadyForExecution ex_retrying 6999 = []"
    by simp
  have b: "?a \<in> set (getJobsReadyForExecution ex_retrying 7000)"
    unfolding s2 using ex_retrying_job by auto
  show ?thesis
    using a b by (simp add: ex_retrying_job)
qed

text \<open>
  C8 (as stated: the whole result is ordered by \<open>createdAt\<close>, ties broken by id). It
  fails on the code: job \<open>a\<close>, created at time 1, waits for its retry; job \<open>b\<close>,
  created at time 6000, is PENDING. At time 7000 both are ready, and the result lists
  \<open>b\<close> before \<open>a\<close>.
\<close>

theorem ready_order_counterexample:
  "map job_id (getJobsReadyForExecution ex_two 7000) = [''b'', ''a''] \<and>
   map createdAt (getJobsReadyForExecution ex_two 7000) = [6000, 1] \<and>
   \<not> sorted (map createdAt (getJobsReadyForExecution ex_two 7000))"
  using ex_two_ready by simp

section \<open>Attempts and the attempt limit\<close>

lemma ex_zero1_eval:
  "suspended ex_zero1 = [''z''] \<and> activeExecutions ex_zero1 = [''z''] \<and>
   getJob (queue ex_zero1) ''z'' =
     Some \<lparr>job_id = ''z'', job_type = ''SEND_EMAIL'', payload = ''mail'', status = RUNNING,
       attempts = 1, maxAttempts = 0, createdAt = 1,
       startedAt = Some 2, finishedAt = None, error = None, retryAt = None\<rparr>"
proof -
  let ?z = "\<lparr>job_id = ''z'', job_type = ''SEND_EMAIL'', payload = ''mail'', status = PENDING,
       attempts = 0, maxAttempts = 0, createdAt = 1,
       startedAt = None, finishedAt = None, error = None, retryAt = None\<rparr>"
  have f0: "isRunning ex_zero0 \<and> \<not> isPaused ex_zero0 \<and> activeExecutions ex_zero0 = [] \<and>
            suspended ex_zero0 = [] \<and> getJobsReadyForExecution (queue ex_zero0) 2 = [?z]"
    by (simp add: ex_zero0_def start_def Scheduler_new_def ex_env0_def no_options_def
        qm_createJob_def createJob_def JobStore_new_def Let_def maxAttempts_of_def
        getJobsReadyForExecution_def getJobsByStatus_def set_add_def)
  have g: "getJob (queue ex_zero0) ''z'' = Some ?z"
    by (simp add: ex_zero0_def start_def Scheduler_new_def ex_env0_def no_options_def
        qm_createJob_def createJob_def JobStore_new_def Let_def maxAttempts_of_def getJob_def)
  obtain q r where st: "startJob (queue ex_zero0) ''z'' 2 = (q, r)"
    by (cases "startJob (queue ex_zero0) ''z'' 2")
  have r: "r = Inr (?z\<lparr>status := RUNNING, startedAt := Some 2, attempts := Suc 0\<rparr>)"
    using startJob_Some(1)[OF g, of 2] st by simp
  have q: "getJob q ''z'' = Some (?z\<lparr>status := RUNNING, startedAt := Some 2, attempts := Suc 0\<rparr>)"
    using startJob_Some(2)[OF g, of 2] st by simp
  show ?thesis
    using f0 st r q
    by (simp add: ex_zero1_def poll_def qm_getJobsReadyForExecution_def dispatchJob_def Let_def
        set_add_def)
qed

lemma ex_zero2_eval:
  "getJob (queue ex_zero2) ''z'' =
     Some \<lparr>job_id = ''z'', job_type = ''SEND_EMAIL'', payload = ''mail'', status = DEAD,
       attempts = 1, maxAttempts = 0, createdAt = 1,
       startedAt = Some 2, finishedAt = Some 3, error = Some ''boom'', retryAt = None\<rparr>"
proof -
  have g: "getJob (queue ex_zero1) ''z'' =
     Some \<lparr>job_id = ''z'', job_type = ''SEND_EMAIL'', payload = ''mail'', status = RUNNING,
       attempts = 1, maxAttempts = 0, createdAt = 1,
       startedAt = Some 2, finishedAt = None, error = None, retryAt = None\<rparr>"
    using ex_zero1_eval by simp
  show ?thesis
    using failJob_dead(2)[OF g, of ex_env0 "''boom''" 3]
    by (simp add: ex_zero2_def dispatchJob_settle_def Let_def)
qed

lemma ex_zero_reachable: "reachable ex_env0 ex_zero1" "reachable ex_env0 ex_zero2"
proof -
  have "reachable ex_env0 ex_zero0"
    unfolding ex_zero0_def
    by (intro r_start r_submit r_init) (simp add: Scheduler_new_def JobStore_new_def)
  then show 1: "reachable ex_env0 ex_zero1"
    unfolding ex_zero1_def by (rule r_poll)
  show "reachable ex_env0 ex_zero2"
    unfolding ex_zero2_def using ex_zero1_eval by (intro r_settle[OF 1]) simp
qed

text \<open>
  C4 (as stated: in every reachable state every job has \<open>attempts \<le> maxAttempts\<close>, and
  every DEAD job \<open>attempts = maxAttempts\<close>). It fails on the code: \<open>createJob\<close> takes the
  limit as configured, and with \<^verbatim>\<open>MAX_JOB_ATTEMPTS=0\<close> job \<open>z\<close> gets \<open>maxAttempts = 0\<close>. The
  poll dispatches it all the same, so it is RUNNING with \<open>attempts = 1\<close>, and after the
  rejection it is DEAD with \<open>attempts = 1\<close> and \<open>maxAttempts = 0\<close>.
\<close>

theorem attempts_within_limit_counterexample:
  "reachable ex_env0 ex_zero1 \<and>
   map_option status (getJob (queue ex_zero1) ''z'') = Some RUNNING \<and>
   map_option attempts (getJob (queue ex_zero1) ''z'') = Some 1 \<and>
   map_option maxAttempts (getJob (queue ex_zero1) ''z'') = Some 0 \<and>
   reachable ex_env0 ex_zero2 \<and>
   map_option status (getJob (queue ex_zero2) ''z'') = Some DEAD \<and>
   map_option attempts (getJob (queue ex_zero2) ''z'') = Some 1 \<and>
   map_option maxAttempts (getJob (queue ex_zero2) ''z'') = Some 0"
  using ex_zero_reachable ex_zero1_eval ex_zero2_eval by simp

text \<open>
  C4 (amended): in every state the system reaches (jobs submitted, and \<open>startJob\<close>,
  \<open>completeJob\<close> and \<open>failJob\<close> driven by the scheduler), every job whose \<open>maxAttempts\<close>
  is at least 1 satisfies \<open>attempts \<le> maxAttempts\<close>, and \<open>attempts = maxAttempts\<close> when it
  is DEAD. The code does not require a positive \<open>maxAttempts\<close>; a job is dispatched once
  whatever its limit, so for every job \<open>attempts \<le> max(1, maxAttempts)\<close>, and a DEAD job
  has \<open>attempts \<ge> maxAttempts\<close>.
\<close>

theorem attempts_within_limit:
  assumes "reachable e sc" and "getJob (queue sc) i = Some j"
  shows "int (attempts j) \<le> max 1 (maxAttempts j) \<and>
         (status j = DEAD \<longrightarrow> maxAttempts j \<le> int (attempts j)) \<and>
         (1 \<le> maxAttempts j \<longrightarrow>
            int (attempts j) \<le> maxAttempts j \<and>
            (status j = DEAD \<longrightarrow> int (attempts j) = maxAttempts j))"
proof -
  have "attempts_ok j"
    using store_reachable_attempts[OF reachable_store[OF assms(1)]] assms(2) by blast
  then show ?thesis by (auto simp: attempts_ok_def)
qed

theorem attempts_within_limit_witness:
  "reachable ex_env ex_sched2 \<and>
   (\<exists>j. getJob (queue ex_sched2) ''d'' = Some j \<and> 1 \<le> maxAttempts j \<and>
        status j = DEAD \<and> int (attempts j) = maxAttempts j)"
proof -
  let ?d = "\<lparr>job_id = ''d'', job_type = ''SEND_EMAIL'', payload = ''mail'', status = DEAD,
       attempts = 1, maxAttempts = 1, createdAt = 1,
       startedAt = Some 2, finishedAt = Some 3, error = Some ''boom'', retryAt = None\<rparr>"
  have g: "getJob (queue ex_sched2) ''d'' = Some ?d"
    using ex_sched2_eval by simp
  from attempts_within_limit[OF ex_sched_reachable(2) g]
  have "int (attempts ?d) = maxAttempts ?d" by simp
  then show ?thesis using g ex_sched_reachable(2) by simp
qed

section \<open>One dispatch per job\<close>

text \<open>
  C5: in every state the system reaches, at most one dispatch is in progress for each
  job id. The dispatches waiting for the worker pool are pairwise for different ids,
  and their ids are exactly the in-flight set \<open>activeExecutions\<close>: an id enters the
  set when its dispatch begins, before \<open>startJob\<close>, and leaves it when the dispatch
  has called \<open>completeJob\<close> or \<open>failJob\<close>. The polling loop skips a job whose id is
  in the set, so it never calls \<open>startJob\<close> for it.
\<close>

theorem one_dispatch_per_job:
  assumes "reachable e sc"
  shows "distinct (suspended sc) \<and>
         set (suspended sc) = set (activeExecutions sc) \<and>
         (\<forall>j js clock. job_id j \<in> set (activeExecutions sc) \<longrightarrow>
            dispatch_all e sc (j # js) clock = dispatch_all e sc js clock)"
  using reachable_inflight[OF assms] by simp

theorem one_dispatch_per_job_witness:
  "reachable ex_env ex_sched1 \<and> suspended ex_sched1 = [''d''] \<and>
   distinct (suspended ex_sched1) \<and>
   set (suspended ex_sched1) = set (activeExecutions ex_sched1)"
  using one_dispatch_per_job[OF ex_sched_reachable(1)] ex_sched_reachable(1) ex_sched1_eval
  by simp

section \<open>Order of the ready list\<close>

lemma ex_run1_eval:
  "queue ex_run1 = ex_running \<and> suspended ex_run1 = [''a''] \<and> activeExecutions ex_run1 = [''a'']"
proof -
  have q0: "queue ex_run0 = ex_created"
    by (simp add: ex_run0_def start_def Scheduler_new_def ex_created_def)
  have f0: "isRunning ex_run0 \<and> \<not> isPaused ex_run0 \<and> activeExecutions ex_run0 = [] \<and>
            suspended ex_run0 = []"
    by (simp add: ex_run0_def start_def Scheduler_new_def)
  have rdy: "getJobsReadyForExecution ex_created 2 =
     [\<lparr>job_id = ''a'', job_type = ''SEND_EMAIL'', payload = ''mail'', status = PENDING,
       attempts = 0, maxAttempts = 3, createdAt = 1,
       startedAt = None, finishedAt = None, error = None, retryAt = None\<rparr>]"
    by (simp add: ex_created_def ex_env_def no_options_def
        qm_createJob_def createJob_def JobStore_new_def Let_def maxAttempts_of_def
        getJobsReadyForExecution_def getJobsByStatus_def set_add_def)
  obtain q r where st: "startJob ex_created ''a'' 2 = (q, r)"
    by (cases "startJob ex_created ''a'' 2")
  have q: "q = ex_running" using st by (simp add: ex_running_def)
  have r: "\<not> isl r"
    using startJob_Some(1)[OF ex_created_job, of 2] st by simp
  then obtain x where x: "r = Inr x" by (cases r) simp_all
  show ?thesis
    using q0 f0 rdy st q x
    by (simp add: ex_run1_def poll_def qm_getJobsReadyForExecution_def dispatchJob_def Let_def
        set_add_def)
qed

lemma ex_run3_eval: "queue ex_run3 = ex_two"
proof -
  have "queue ex_run2 = ex_retrying"
    using ex_run1_eval by (simp add: ex_run2_def dispatchJob_settle_def ex_retrying_def)
  then show ?thesis by (simp add: ex_run3_def ex_two_def)
qed

section \<open>History of a run\<close>

lemma run_reachable: "run e sc cs rs \<Longrightarrow> reachable e sc"
  by (induction rule: run.induct) (auto intro: reachable.intros)

lemma reachable_has_run: "reachable e sc \<Longrightarrow> \<exists>cs rs. run e sc cs rs"
  by (induction rule: reachable.induct) (blast intro: run.intros)+

lemma keys_updateJobStatus:
  "map fst (jobs (fst (updateJobStatus s i st u))) = map fst (jobs s)"
proof (cases "getJob s i")
  case None
  then show ?thesis by (simp add: updateJobStatus_None)
next
  case (Some j)
  have "i \<in> set (map fst (jobs s))" using getJob_keys[OF Some] by simp
  then show ?thesis
    using Some by (simp add: updateJobStatus_def getJob_def Let_def update_keys)
qed

lemma keys_startJob: "map fst (jobs (fst (startJob s i now))) = map fst (jobs s)"
  by (simp add: startJob_def markJobStarted_def keys_updateJobStatus split: option.splits)

lemma keys_completeJob: "map fst (jobs (fst (completeJob s i now))) = map fst (jobs s)"
  by (simp add: completeJob_def markJobCompleted_def keys_updateJobStatus)

lemma keys_markJobFailed: "map fst (jobs (fst (markJobFailed s i msg now))) = map fst (jobs s)"
  by (simp add: markJobFailed_def keys_updateJobStatus split: option.splits)

lemma keys_failJob: "map fst (jobs (fst (failJob e s i msg now))) = map fst (jobs s)"
proof -
  obtain s1 r where m: "markJobFailed s i msg now = (s1, r)" by (cases "markJobFailed s i msg now")
  have s1: "map fst (jobs s1) = map fst (jobs s)"
    using keys_markJobFailed[of s i msg now] m by simp
  show ?thesis
    using s1 m by (simp add: failJob_def Let_def markJobRetrying_def keys_updateJobStatus
        split: option.splits sum.splits)
qed

lemma keys_dispatchJob: "map fst (jobs (queue (dispatchJob e sc j t))) = map fst (jobs (queue sc))"
proof -
  obtain q r where st: "startJob (queue sc) (job_id j) t = (q, r)"
    by (cases "startJob (queue sc) (job_id j) t")
  have q: "map fst (jobs q) = map fst (jobs (queue sc))"
    using keys_startJob[of "queue sc" "job_id j" t] st by simp
  show ?thesis
    using st q by (cases r) (simp_all add: dispatchJob_def Let_def keys_failJob)
qed

lemma keys_dispatch_all:
  "map fst (jobs (queue (dispatch_all e sc js clock))) = map fst (jobs (queue sc))"
  by (induction js arbitrary: sc) (simp_all add: keys_dispatchJob)

lemma keys_poll: "map fst (jobs (queue (poll e sc now clock))) = map fst (jobs (queue sc))"
  by (simp add: poll_def keys_dispatch_all)

lemma keys_settle:
  "map fst (jobs (queue (dispatchJob_settle e sc i out now))) = map fst (jobs (queue sc))"
proof (cases out)
  case Resolved
  obtain q r where c: "completeJob (queue sc) i now = (q, r)"
    by (cases "completeJob (queue sc) i now")
  have q: "map fst (jobs q) = map fst (jobs (queue sc))"
    using keys_completeJob[of "queue sc" i now] c by simp
  show ?thesis
    using c q by (cases r) (simp_all add: dispatchJob_settle_def Resolved keys_failJob)
next
  case (Rejected msg)
  then show ?thesis by (simp add: dispatchJob_settle_def keys_failJob)
qed

lemma keys_createJob:
  assumes "uuid \<notin> fst ` set (jobs s)"
  shows "map fst (jobs (fst (qm_createJob e s type pl opts uuid now))) =
           (if isl (snd (qm_createJob e s type pl opts uuid now)) then map fst (jobs s)
            else map fst (jobs s) @ [uuid])"
  using assms
  by (simp add: qm_createJob_def createJob_def Let_def update_absent)

lemma run_created_order: "run e sc cs rs \<Longrightarrow> map fst (jobs (queue sc)) = cs"
proof (induction rule: run.induct)
  case (run_init maxSize)
  show ?case by (simp add: Scheduler_new_def JobStore_new_def)
next
  case (run_submit sc cs rs uuid type pl opts now)
  then show ?case by (simp add: keys_createJob)
next
  case (run_poll sc cs rs now clock)
  then show ?case by (simp add: keys_poll)
next
  case (run_settle sc cs rs jobId out now)
  then show ?case by (simp add: keys_settle)
qed (simp_all add: start_def pause_def resume_def stop_def)

lemma has_status_index:
  "store_inv s \<Longrightarrow> has_status s st i \<longleftrightarrow> i \<in> set (jobsByStatus s st)"
  by (auto simp: store_inv_def has_status_def split: option.splits)

lemma retrying_updateJobStatus:
  assumes inv: "store_inv s" and g: "getJob s i = Some j"
  shows "jobsByStatus (fst (updateJobStatus s i st u)) RETRYING =
           (if st = RETRYING then removeAll i (jobsByStatus s RETRYING) @ [i]
            else removeAll i (jobsByStatus s RETRYING))"
proof -
  have mem: "i \<in> set (jobsByStatus s RETRYING) \<longleftrightarrow> status j = RETRYING"
    using inv g by (simp add: store_inv_def)
  show ?thesis
    using g mem
    by (auto simp: updateJobStatus_def getJob_def Let_def set_delete_def set_add_def removeAll_id)
qed

lemma retrying_startJob:
  assumes inv: "store_inv s" and g: "getJob s i = Some j" and ne: "status j \<noteq> RUNNING"
  shows "jobsByStatus (fst (startJob s i now)) RETRYING = removeAll i (jobsByStatus s RETRYING)"
  using g ne retrying_updateJobStatus[OF inv g]
  by (simp add: startJob_def isJobRunning_def markJobStarted_def)

lemma retrying_completeJob:
  assumes inv: "store_inv s" and g: "getJob s i = Some j"
  shows "jobsByStatus (fst (completeJob s i now)) RETRYING = removeAll i (jobsByStatus s RETRYING)"
  using retrying_updateJobStatus[OF inv g]
  by (simp add: completeJob_def markJobCompleted_def)

lemma retrying_failJob:
  assumes inv: "store_inv s" and g: "getJob s i = Some j"
  shows "jobsByStatus (fst (failJob e s i msg now)) RETRYING =
           (if int (attempts j) < maxAttempts j then removeAll i (jobsByStatus s RETRYING) @ [i]
            else removeAll i (jobsByStatus s RETRYING))"
proof (cases "int (attempts j) < maxAttempts j")
  case False
  then show ?thesis
    using g retrying_updateJobStatus[OF inv g]
    by (simp add: failJob_def markJobFailed_def)
next
  case True
  let ?u = "\<lambda>j. j\<lparr>error := Some msg\<rparr>"
  let ?s1 = "fst (updateJobStatus s i FAILED ?u)"
  have mf: "markJobFailed s i msg now = updateJobStatus s i FAILED ?u"
    using g True by (simp add: markJobFailed_def)
  have inv1: "store_inv ?s1" by (rule store_inv_update[OF inv]) simp
  have g1: "getJob ?s1 i = Some (j\<lparr>status := FAILED, error := Some msg\<rparr>)"
    using g by (simp add: updateJobStatus_Some)
  have r1: "snd (updateJobStatus s i FAILED ?u) = Inr (j\<lparr>status := FAILED, error := Some msg\<rparr>)"
    using g by (simp add: updateJobStatus_Some)
  have fj: "failJob e s i msg now = markJobRetrying ?s1 i (now + calculateRetryDelay e (attempts j))"
    using g True r1
    by (cases "updateJobStatus s i FAILED ?u") (simp add: failJob_def mf Let_def)
  have R1: "jobsByStatus ?s1 RETRYING = removeAll i (jobsByStatus s RETRYING)"
    using retrying_updateJobStatus[OF inv g, of FAILED ?u] by simp
  show ?thesis
    using True retrying_updateJobStatus[OF inv1 g1, of RETRYING]
    by (simp add: fj markJobRetrying_def R1)
qed

lemma filter_mem_filter: "filter (\<lambda>k. k \<in> set (filter Q xs)) xs = filter Q xs"
  by (rule filter_cong) auto

lemma dispatch_all_retrying:
  assumes "store_inv (queue sc)"
    and "distinct (map job_id js)"
    and "\<forall>j \<in> set js. \<exists>j'. getJob (queue sc) (job_id j) = Some j' \<and>
            (status j' = PENDING \<or> status j' = RETRYING)"
  shows "\<exists>Q. jobsByStatus (queue (dispatch_all e sc js clock)) RETRYING =
              filter Q (jobsByStatus (queue sc) RETRYING)"
  using assms
proof (induction js arbitrary: sc)
  case Nil
  have "jobsByStatus (queue sc) RETRYING = filter (\<lambda>_. True) (jobsByStatus (queue sc) RETRYING)"
    by simp
  then show ?case by (simp del: filter_True) blast
next
  case (Cons j js)
  show ?case
  proof (cases "job_id j \<in> set (activeExecutions sc)")
    case True
    then show ?thesis using Cons by simp
  next
    case False
    let ?sc' = "dispatchJob e sc j (clock (job_id j))"
    from Cons.prems(3) obtain j' where j': "getJob (queue sc) (job_id j) = Some j'"
      "status j' = PENDING \<or> status j' = RETRYING" by auto
    have ne: "status j' \<noteq> RUNNING" using j'(2) by auto
    have q: "queue ?sc' = fst (startJob (queue sc) (job_id j) (clock (job_id j)))"
      by (rule dispatchJob_ready[OF j'])
    have inv': "store_inv (queue ?sc')"
      unfolding q by (rule store_inv_startJob[OF Cons.prems(1)])
    have R': "jobsByStatus (queue ?sc') RETRYING =
                filter (\<lambda>k. job_id j \<noteq> k) (jobsByStatus (queue sc) RETRYING)"
      unfolding q
      by (simp add: retrying_startJob[OF Cons.prems(1) j'(1) ne] removeAll_filter_not_eq)
    have rest: "\<forall>k \<in> set js. \<exists>k'. getJob (queue ?sc') (job_id k) = Some k' \<and>
            (status k' = PENDING \<or> status k' = RETRYING)"
    proof
      fix k assume k: "k \<in> set js"
      have "job_id j \<notin> job_id ` set js" using Cons.prems(2) by simp
      with k have "job_id k \<noteq> job_id j" by (metis imageI)
      then have "getJob (queue ?sc') (job_id k) = getJob (queue sc) (job_id k)"
        unfolding q by (rule startJob_other)
      then show "\<exists>k'. getJob (queue ?sc') (job_id k) = Some k' \<and>
            (status k' = PENDING \<or> status k' = RETRYING)"
        using Cons.prems(3) k by simp
    qed
    have d: "distinct (map job_id js)" using Cons.prems(2) by simp
    from Cons.IH[OF inv' d rest]
    obtain Q where Q: "jobsByStatus (queue (dispatch_all e ?sc' js clock)) RETRYING =
              filter Q (jobsByStatus (queue ?sc') RETRYING)" by blast
    have "jobsByStatus (queue (dispatch_all e ?sc' js clock)) RETRYING =
              filter (\<lambda>k. job_id j \<noteq> k \<and> Q k) (jobsByStatus (queue sc) RETRYING)"
      by (simp add: Q R' conj_commute)
    then show ?thesis using False by auto
  qed
qed

lemma retrying_poll:
  assumes "store_reachable e (queue sc)"
  shows "jobsByStatus (queue (poll e sc now clock)) RETRYING =
           filter (has_status (queue (poll e sc now clock)) RETRYING) (jobsByStatus (queue sc) RETRYING)"
proof -
  let ?R = "jobsByStatus (queue sc) RETRYING"
  let ?sc' = "poll e sc now clock"
  have inv: "store_inv (queue sc)" by (rule store_reachable_inv[OF assms])
  have inv': "store_inv (queue ?sc')"
    by (rule store_reachable_inv[OF poll_store_reachable[OF assms]])
  have "\<exists>Q. jobsByStatus (queue ?sc') RETRYING = filter Q ?R"
  proof (cases "isPaused sc \<or> \<not> isRunning sc")
    case True
    have "?R = filter (\<lambda>_. True) ?R" by simp
    then show ?thesis using True by (simp add: poll_def del: filter_True) blast
  next
    case False
    have "\<exists>Q. jobsByStatus (queue (dispatch_all e sc (getJobsReadyForExecution (queue sc) now) clock)) RETRYING
              = filter Q ?R"
      using ready_lookup[OF inv]
      by (intro dispatch_all_retrying[OF inv ready_distinct[OF inv]]) blast
    then show ?thesis using False by (simp add: poll_def qm_getJobsReadyForExecution_def)
  qed
  then obtain Q where Q: "jobsByStatus (queue ?sc') RETRYING = filter Q ?R" by blast
  have "filter (has_status (queue ?sc') RETRYING) ?R = filter (\<lambda>k. k \<in> set (filter Q ?R)) ?R"
    by (rule filter_cong) (simp_all add: has_status_index[OF inv'] Q)
  then show ?thesis by (simp only: Q filter_mem_filter)
qed

lemma retrying_settle:
  assumes inv: "store_inv (queue sc)"
  shows "jobsByStatus (queue (dispatchJob_settle e sc i out now)) RETRYING =
           (if has_status (queue (dispatchJob_settle e sc i out now)) RETRYING i
            then removeAll i (jobsByStatus (queue sc) RETRYING) @ [i]
            else removeAll i (jobsByStatus (queue sc) RETRYING))"
proof (cases "getJob (queue sc) i")
  case None
  have q: "queue (dispatchJob_settle e sc i out now) = queue sc"
    using None by (cases out) (simp_all add: dispatchJob_settle_def completeJob_None failJob_None)
  have "i \<notin> set (jobsByStatus (queue sc) RETRYING)"
    using inv None by (simp add: store_inv_def)
  then show ?thesis using None by (simp add: q has_status_def removeAll_id)
next
  case (Some j)
  show ?thesis
  proof (cases out)
    case Resolved
    obtain q r where c: "completeJob (queue sc) i now = (q, r)"
      by (cases "completeJob (queue sc) i now")
    have r: "r = Inr (j\<lparr>status := COMPLETED, finishedAt := Some now\<rparr>)"
      using completeJob_Some(1)[OF Some, of now] c by simp
    have q: "queue (dispatchJob_settle e sc i out now) = fst (completeJob (queue sc) i now)"
      using c r by (simp add: dispatchJob_settle_def Resolved)
    show ?thesis
      unfolding q
      by (simp add: retrying_completeJob[OF inv Some] has_status_def completeJob_Some(2)[OF Some])
  next
    case (Rejected msg)
    have q: "queue (dispatchJob_settle e sc i out now) = fst (failJob e (queue sc) i msg now)"
      by (simp add: dispatchJob_settle_def Rejected)
    show ?thesis
    proof (cases "int (attempts j) < maxAttempts j")
      case True
      then show ?thesis
        unfolding q
        by (simp add: retrying_failJob[OF inv Some] has_status_def failJob_retry(2)[OF Some True])
    next
      case False
      then show ?thesis
        unfolding q
        by (simp add: retrying_failJob[OF inv Some] has_status_def failJob_dead(2)[OF Some False])
    qed
  qed
qed

lemma retrying_createJob:
  "jobsByStatus (fst (qm_createJob e s type pl opts uuid now)) RETRYING = jobsByStatus s RETRYING"
  by (simp add: qm_createJob_def createJob_def Let_def)

lemma run_retrying_order: "run e sc cs rs \<Longrightarrow> jobsByStatus (queue sc) RETRYING = rs"
proof (induction rule: run.induct)
  case (run_init maxSize)
  show ?case by (simp add: Scheduler_new_def JobStore_new_def)
next
  case (run_submit sc cs rs uuid type pl opts now)
  then show ?case by (simp add: retrying_createJob)
next
  case (run_poll sc cs rs now clock)
  have "store_reachable e (queue sc)"
    by (rule reachable_store[OF run_reachable[OF run_poll.hyps]])
  from retrying_poll[OF this, of now clock] show ?case using run_poll.IH by simp
next
  case (run_settle sc cs rs jobId out now)
  have "store_inv (queue sc)"
    by (rule store_reachable_inv[OF reachable_store[OF run_reachable[OF run_settle.hyps(1)]]])
  from retrying_settle[OF this, of e jobId out now] show ?case using run_settle.IH by simp
qed (simp_all add: start_def pause_def resume_def stop_def)

section \<open>Order of the ready list: creation and retry order\<close>

lemma keys_with_status:
  assumes "distinct (map fst al)"
  shows "map fst (filter (\<lambda>(i, j). P j) al) =
           filter (\<lambda>i. case map_of al i of None \<Rightarrow> False | Some j \<Rightarrow> P j) (map fst al)"
proof -
  have "filter (\<lambda>(i, j). P j) al =
          filter ((\<lambda>i. case map_of al i of None \<Rightarrow> False | Some j \<Rightarrow> P j) \<circ> fst) al"
    by (rule filter_cong) (use assms in auto)
  then show ?thesis by (simp add: filter_map)
qed

lemma run_pending_order:
  assumes "run e sc cs rs"
  shows "jobsByStatus (queue sc) PENDING = filter (has_status (queue sc) PENDING) cs"
proof -
  have sr: "store_reachable e (queue sc)"
    by (rule reachable_store[OF run_reachable[OF assms]])
  have inv: "store_inv (queue sc)" by (rule store_reachable_inv[OF sr])
  have d: "distinct (map fst (jobs (queue sc)))" using inv by (simp add: store_inv_def)
  have po: "pending_in_creation_order (queue sc)" by (rule store_reachable_pending_order[OF sr])
  have hs: "has_status (queue sc) PENDING =
          (\<lambda>i. case map_of (jobs (queue sc)) i of None \<Rightarrow> False | Some j \<Rightarrow> status j = PENDING)"
    by (rule ext) (simp add: has_status_def getJob_def)
  show ?thesis
    using po keys_with_status[OF d, of "\<lambda>j. status j = PENDING"]
    by (simp add: pending_in_creation_order_def hs run_created_order[OF assms])
qed

text \<open>
  C8 (amended): the list that \<open>getJobsReadyForExecution\<close> returns is not sorted by
  \<open>createdAt\<close>. It holds the PENDING jobs first, in the order in which they were
  created, followed by the RETRYING jobs whose delay has elapsed, in the order in which
  they entered RETRYING. A RETRYING job comes after every PENDING job, also when it was
  created earlier, and jobs created at the same time keep the order of their creation,
  whatever their ids. The two orders are those of the run's history \<open>cs\<close> and \<open>rs\<close>;
  every reachable state has such a history (\<open>reachable_has_run\<close>).
\<close>

theorem ready_order:
  assumes "run e sc cs rs"
  shows "getJobsReadyForExecution (queue sc) now =
           List.map_filter (getJob (queue sc)) (filter (has_status (queue sc) PENDING) cs) @
           filter (retry_elapsed now) (List.map_filter (getJob (queue sc)) rs) \<and>
         filter (has_status (queue sc) RETRYING) rs = rs"
proof -
  have inv: "store_inv (queue sc)"
    by (rule store_reachable_inv[OF reachable_store[OF run_reachable[OF assms]]])
  have "filter (has_status (queue sc) RETRYING) rs = rs"
    using has_status_index[OF inv, of RETRYING] run_retrying_order[OF assms] by simp
  then show ?thesis
    by (simp add: getJobsReadyForExecution_def getJobsByStatus_alt
        run_pending_order[OF assms] run_retrying_order[OF assms])
qed

lemma ex_run2_eval: "queue ex_run2 = ex_retrying"
  using ex_run1_eval by (simp add: ex_run2_def dispatchJob_settle_def ex_retrying_def)

lemma ex_run3_run: "run ex_env ex_run3 [''a'', ''b''] [''a'']"
proof -
  have c0: "\<not> isl (snd (qm_createJob ex_env (queue (Scheduler_new 2)) ''SEND_EMAIL'' ''mail''
                       no_options ''a'' 1))"
    by (simp add: Scheduler_new_def JobStore_new_def qm_createJob_def createJob_def Let_def)
  have "run ex_env ex_run0 [''a''] []"
    unfolding ex_run0_def
    using run_start[OF run_submit[OF run_init[of ex_env 2], of "''a''" "''SEND_EMAIL''" "''mail''" no_options 1]]
      c0
    by (simp add: Scheduler_new_def JobStore_new_def)
  from run_poll[OF this, of 2 "\<lambda>_. 2"]
  have 1: "run ex_env ex_run1 [''a''] []"
    by (simp add: ex_run1_def)
  have r: "has_status (queue ex_run2) RETRYING ''a''"
    by (simp add: ex_run2_eval has_status_def ex_retrying_job)
  have "''a'' \<in> set (suspended ex_run1)" using ex_run1_eval by simp
  from run_settle[OF 1 this, of "Rejected ''boom''" 5000]
  have 2: "run ex_env ex_run2 [''a''] [''a'']"
    using r by (simp add: ex_run2_def)
  have nb: "getJob ex_retrying ''b'' = None"
    using ex_retrying_only[of "''b''"] by (cases "getJob ex_retrying ''b''") auto
  then have fresh: "''b'' \<notin> fst ` set (jobs (queue ex_run2))"
    by (simp add: ex_run2_eval getJob_def map_of_eq_None_iff)
  have "length (jobs ex_retrying) = 1 \<and> maxQueueSize ex_retrying = 2"
    by (simp add: ex_retrying_def ex_running_def ex_created_def frame_failJob frame_startJob
        frame_createJob qm_createJob_def createJob_def JobStore_new_def Let_def)
  then have "int (length (jobs (queue ex_run2))) < maxQueueSize (queue ex_run2)"
    by (simp add: ex_run2_eval)
  from createJob_ok[OF this, of ex_env "''SEND_EMAIL''" "''mail''" no_options "''b''" 6000]
  have c3: "\<not> isl (snd (qm_createJob ex_env (queue ex_run2) ''SEND_EMAIL'' ''mail''
                       no_options ''b'' 6000))"
    by auto
  from run_submit[OF 2 fresh, of "''SEND_EMAIL''" "''mail''" no_options 6000]
  show ?thesis using c3 by (simp add: ex_run3_def)
qed

lemma ex_tie_run: "run ex_env ex_tie [''b'', ''a''] []"
proof -
  let ?q1 = "fst (qm_createJob ex_env (queue (Scheduler_new 2)) ''SEND_EMAIL'' ''mail''
                               no_options ''b'' 1)"
  have c0: "\<not> isl (snd (qm_createJob ex_env (queue (Scheduler_new 2)) ''SEND_EMAIL'' ''mail''
                       no_options ''b'' 1))"
    by (simp add: Scheduler_new_def JobStore_new_def qm_createJob_def createJob_def Let_def)
  from run_submit[OF run_init[of ex_env 2], of "''b''" "''SEND_EMAIL''" "''mail''" no_options 1]
  have 1: "run ex_env ((Scheduler_new 2)\<lparr>queue := ?q1\<rparr>) [''b''] []"
    using c0 by (simp add: Scheduler_new_def JobStore_new_def)
  have fresh: "''a'' \<notin> fst ` set (jobs (queue ((Scheduler_new 2)\<lparr>queue := ?q1\<rparr>)))"
    by (simp add: Scheduler_new_def JobStore_new_def qm_createJob_def createJob_def Let_def)
  have c1: "\<not> isl (snd (qm_createJob ex_env ?q1 ''SEND_EMAIL'' ''mail'' no_options ''a'' 1))"
    by (simp add: Scheduler_new_def JobStore_new_def qm_createJob_def createJob_def Let_def)
  from run_submit[OF 1 fresh, of "''SEND_EMAIL''" "''mail''" no_options 1]
  show ?thesis using c1 by (simp add: ex_tie_def)
qed

lemma ex_tie_jobs:
  "getJob (queue ex_tie) ''b'' =
     Some \<lparr>job_id = ''b'', job_type = ''SEND_EMAIL'', payload = ''mail'', status = PENDING,
       attempts = 0, maxAttempts = 3, createdAt = 1,
       startedAt = None, finishedAt = None, error = None, retryAt = None\<rparr>"
  "getJob (queue ex_tie) ''a'' =
     Some \<lparr>job_id = ''a'', job_type = ''SEND_EMAIL'', payload = ''mail'', status = PENDING,
       attempts = 0, maxAttempts = 3, createdAt = 1,
       startedAt = None, finishedAt = None, error = None, retryAt = None\<rparr>"
  by (simp_all add: ex_tie_def Scheduler_new_def JobStore_new_def qm_createJob_def createJob_def
      Let_def getJob_def ex_env_def no_options_def maxAttempts_of_def)

theorem ready_order_witness:
  "run ex_env ex_run3 [''a'', ''b''] [''a''] \<and>
   map job_id (getJobsReadyForExecution (queue ex_run3) 7000) = [''b'', ''a''] \<and>
   map createdAt (getJobsReadyForExecution (queue ex_run3) 7000) = [6000, 1] \<and>
   run ex_env ex_tie [''b'', ''a''] [] \<and>
   map job_id (getJobsReadyForExecution (queue ex_tie) 5) = [''b'', ''a''] \<and>
   map createdAt (getJobsReadyForExecution (queue ex_tie) 5) = [1, 1]"
proof -
  have b: "getJob ex_two ''b'' =
     Some \<lparr>job_id = ''b'', job_type = ''SEND_EMAIL'', payload = ''mail'', status = PENDING,
       attempts = 0, maxAttempts = 3, createdAt = 6000,
       startedAt = None, finishedAt = None, error = None, retryAt = None\<rparr>"
    by (simp add: ex_two_def qm_createJob_def createJob_def Let_def getJob_def update_conv'
        ex_env_def no_options_def maxAttempts_of_def frame_failJob frame_startJob
        ex_retrying_def ex_running_def ex_created_def JobStore_new_def)
  have a: "getJob ex_two ''a'' = getJob ex_retrying ''a''"
    by (simp add: ex_two_def qm_createJob_def createJob_def Let_def getJob_def update_conv')
  have r3: "map job_id (getJobsReadyForExecution (queue ex_run3) 7000) = [''b'', ''a''] \<and>
            map createdAt (getJobsReadyForExecution (queue ex_run3) 7000) = [6000, 1]"
    using ready_order[OF ex_run3_run, of 7000]
    by (simp add: ex_run3_eval has_status_def a b ex_retrying_job retry_elapsed_def)
  have rt: "map job_id (getJobsReadyForExecution (queue ex_tie) 5) = [''b'', ''a''] \<and>
            map createdAt (getJobsReadyForExecution (queue ex_tie) 5) = [1, 1]"
    using ready_order[OF ex_tie_run, of 5]
    by (simp add: has_status_def ex_tie_jobs)
  show ?thesis using r3 rt ex_run3_run ex_tie_run by simp
qed

end
